theory Spec2Isabelle
  imports Main
begin

section \<open>The ranking checker: data model\<close>

text \<open>
  The development embeds \<^verbatim>\<open>ranking-checker.py\<close>: the function
  \<^verbatim>\<open>google_search\<close> and the script body under
  \<^verbatim>\<open>if __name__ == "__main__"\<close>.

  Everything outside the program is an explicit argument of the model:
  \<^item> \<open>net k ps\<close> is what \<^verbatim>\<open>requests.get\<close> answers to
    the call number \<open>k\<close> (counted from 0) of the run, sent with the query parameters
    \<open>ps\<close>; the url, the proxies, the timeout and
    \<^verbatim>\<open>verify=False\<close> are fixed for a run and are part of
    \<open>net\<close>;
  \<^item> \<open>lib\<close> holds the two functions of the Python standard library that the
    test of line 75 calls;
  \<^item> the file system and the date are arguments of the script body.
\<close>

datatype py_error = TypeError | ValueError | StopIteration | OSError

text \<open>
  An element of \<^verbatim>\<open>data['items']\<close>; \<^verbatim>\<open>item.get(k)\<close>
  is \<^verbatim>\<open>None\<close> for a missing key.
\<close>

record item =
  title :: "string option"
  link :: "string option"
  snippet :: "string option"

text \<open>
  The dictionary appended to \<^verbatim>\<open>results\<close>: the three fields of the item
  and its position.
\<close>

record result = item +
  position :: nat

text \<open>The dictionary \<^verbatim>\<open>params\<close> at the moment of a request.\<close>

record params =
  param_q :: string
  param_start :: int
  param_num :: int
  param_gl :: string
  param_key :: string
  param_cx :: string

text \<open>
  The four ways a request ends in \<^verbatim>\<open>google_search\<close>: status 429; an
  exception of \<^verbatim>\<open>requests.get\<close>,
  \<^verbatim>\<open>raise_for_status\<close> or \<^verbatim>\<open>response.json\<close>; a
  JSON object without the key \<^verbatim>\<open>items\<close>; a JSON object with it.
\<close>

datatype response = Status429 | RequestError | NoItems | Items "item list"

type_synonym network = "nat \<Rightarrow> params \<Rightarrow> response"

text \<open>
  The standard library, on \<^verbatim>\<open>str\<close> values:
  \<^verbatim>\<open>urlparse(link).lib\<close>, which raises or returns the network location
  of the link, and \<^verbatim>\<open>str.lower\<close>.
\<close>

record library =
  urlparse_netloc :: "string \<Rightarrow> py_error + string"
  str_lower :: "string \<Rightarrow> string"

text \<open>The lines printed on the console, one constructor for each
    \<^verbatim>\<open>print\<close> of the source.\<close>

datatype message =
    QuotaExceededMsg string
  | ErrorMsg string
  | NoResultsMsg string
  | AllKeysFailedMsg
  | CountMismatchMsg
  | SearchingMsg string string
  | FoundMsg string nat
  | FoundLinkMsg "string option"
  | NotFoundMsg string int
  | SavedMsg string

text \<open>
  The local state of \<^verbatim>\<open>google_search\<close>: the list
  \<^verbatim>\<open>results\<close>, how many times \<^verbatim>\<open>next\<close> was called
  on \<^verbatim>\<open>key_cycle\<close>, and the effects so far: the requests sent with their
  answers, the lines printed, the number of \<^verbatim>\<open>time.sleep(1)\<close>.
\<close>

record search_state =
  results :: "result list"
  key_cycle :: nat
  calls :: "(params \<times> response) list"
  console :: "message list"
  sleeps :: nat

text \<open>
  The arguments of \<^verbatim>\<open>google_search\<close> (the proxy is part of
  \<open>net\<close>).
\<close>

record search_args =
  query :: string
  api_keys :: "string list"
  cxs :: "string list"
  num_results :: int
  country :: string
  target_domain :: "string option"

text \<open>
  How a loop body is left: by an exception, by the \<^verbatim>\<open>return\<close> inside the
  loop over the items (with \<^verbatim>\<open>position\<close> and
  \<^verbatim>\<open>found_link\<close>), or normally.
\<close>

datatype 'a flow = Raise py_error | Return nat "string option" | Normal 'a

section \<open>Strings\<close>

text \<open>
  \<^verbatim>\<open>s.startswith(p)\<close> and the operator
  \<^verbatim>\<open>needle in hay\<close> on strings.
\<close>

fun startswith :: "string \<Rightarrow> string \<Rightarrow> bool" where
  "startswith s [] = True"
| "startswith [] (p # ps) = False"
| "startswith (c # cs) (p # ps) = (c = p \<and> startswith cs ps)"

fun str_in :: "string \<Rightarrow> string \<Rightarrow> bool" where
  "str_in needle [] = (needle = [])"
| "str_in needle (c # cs) = (startswith (c # cs) needle \<or> str_in needle cs)"

section \<open>The search\<close>

text \<open>
  The test of line 75:
  \<^verbatim>\<open>target_domain and target_domain.lower() in urlparse(link).netloc.lower()\<close>.
  A target that is \<^verbatim>\<open>None\<close> or empty is falsy and nothing else is
  evaluated. For a link that is \<^verbatim>\<open>None\<close>,
  \<^verbatim>\<open>urlparse\<close> answers in bytes and the operator
  \<^verbatim>\<open>in\<close> raises TypeError.
\<close>

definition domain_found :: "library \<Rightarrow> string option \<Rightarrow> string option
    \<Rightarrow> py_error + bool" where
  "domain_found lib target lnk =
     (case target of
        None \<Rightarrow> Inr False
      | Some t \<Rightarrow>
          if t = [] then Inr False
          else (case lnk of
                  None \<Rightarrow> Inl TypeError
                | Some l \<Rightarrow>
                    (case urlparse_netloc lib l of
                       Inl e \<Rightarrow> Inl e
                     | Inr host \<Rightarrow> Inr (str_in (str_lower lib t) (str_lower lib
                         host)))))"

text \<open>Lines 66 to 72: the dictionary appended for an item.\<close>

definition append_item :: "result list \<Rightarrow> item \<Rightarrow> result list" where
  "append_item rs it =
     rs @ [\<lparr>title = title it, link = link it, snippet = snippet it,
            position = length rs + 1\<rparr>]"

text \<open>Lines 64 to 78: the loop over \<^verbatim>\<open>data['items']\<close>.\<close>

fun items_loop :: "library \<Rightarrow> string option \<Rightarrow> item list \<Rightarrow>
    result list
    \<Rightarrow> result list \<times> unit flow" where
  "items_loop lib target [] rs = (rs, Normal ())"
| "items_loop lib target (it # its) rs =
     (let position_actual = length rs + 1;
          rs' = append_item rs it
      in case domain_found lib target (link it) of
           Inl e \<Rightarrow> (rs', Raise e)
         | Inr True \<Rightarrow> (rs', Return position_actual (link it))
         | Inr False \<Rightarrow> items_loop lib target its rs')"

text \<open>
  \<^verbatim>\<open>next(key_cycle)\<close> for
  \<^verbatim>\<open>key_cycle = itertools.cycle(zip(api_keys, cxs))\<close>, after
  \<open>n\<close> earlier calls: the cycle of an empty list raises StopIteration.
\<close>

definition next_key :: "search_args \<Rightarrow> nat \<Rightarrow> (string \<times> string)
    option" where
  "next_key a n =
     (let pairs = zip (api_keys a) (cxs a)
      in if pairs = [] then None else Some (pairs ! (n mod length pairs)))"

text \<open>
  Lines 45 to 81: one pass of the loop over the credentials. \<open>Normal False\<close> is
  \<^verbatim>\<open>continue\<close>, \<open>Normal True\<close> is
  \<^verbatim>\<open>success = True; break\<close>.
\<close>

definition attempt :: "library \<Rightarrow> network \<Rightarrow> search_args \<Rightarrow>
    int \<Rightarrow> int \<Rightarrow> search_state
    \<Rightarrow> search_state \<times> bool flow" where
  "attempt lib net a start num st =
     (case next_key a (key_cycle st) of
        None \<Rightarrow> (st, Raise StopIteration)
      | Some (api_key, cx) \<Rightarrow>
          let ps = \<lparr>param_q = query a, param_start = start, param_num = num,
                    param_gl = country a, param_key = api_key, param_cx = cx\<rparr>;
              resp = net (length (calls st)) ps;
              st1 = st\<lparr>key_cycle := key_cycle st + 1, calls := calls st @ [(ps,
                  resp)]\<rparr>
          in case resp of
               Status429 \<Rightarrow>
                 (st1\<lparr>console := console st1 @ [QuotaExceededMsg api_key]\<rparr>, Normal
                     False)
             | RequestError \<Rightarrow>
                 (st1\<lparr>console := console st1 @ [ErrorMsg api_key]\<rparr>, Normal False)
             | NoItems \<Rightarrow>
                 (st1\<lparr>console := console st1 @ [NoResultsMsg api_key]\<rparr>, Normal False)
             | Items its \<Rightarrow>
                 (case items_loop lib (target_domain a) its (results st1) of
                    (rs, Raise e) \<Rightarrow> (st1\<lparr>results := rs\<rparr>, Raise e)
                  | (rs, Return p l) \<Rightarrow> (st1\<lparr>results := rs\<rparr>, Return p l)
                  | (rs, Normal u) \<Rightarrow> (st1\<lparr>results := rs\<rparr>, Normal True)))"

text \<open>
  Lines 43 to 81: \<^verbatim>\<open>for attempt in range(len(api_keys))\<close>, with
  \<open>n\<close> passes left.
\<close>

fun attempts :: "library \<Rightarrow> network \<Rightarrow> search_args \<Rightarrow> int
    \<Rightarrow> int \<Rightarrow> nat \<Rightarrow> search_state
    \<Rightarrow> search_state \<times> bool flow" where
  "attempts lib net a start num 0 st = (st, Normal False)"
| "attempts lib net a start num (Suc n) st =
     (case attempt lib net a start num st of
        (st', Normal False) \<Rightarrow> attempts lib net a start num n st'
      | (st', Normal True) \<Rightarrow> (st', Normal True)
      | (st', Raise e) \<Rightarrow> (st', Raise e)
      | (st', Return p l) \<Rightarrow> (st', Return p l))"

text \<open>\<^verbatim>\<open>range(i, stop, 10)\<close>.\<close>

function range10 :: "int \<Rightarrow> int \<Rightarrow> int list" where
  "range10 i stop = (if i < stop then i # range10 (i + 10) stop else [])"
  by pat_completeness auto
termination
  by (relation "measure (\<lambda>(i, stop). nat (stop - i))") auto

declare range10.simps [simp del]

text \<open>Lines 35 to 90: the loop over the pages, on the start offsets still to visit.\<close>

fun pages :: "library \<Rightarrow> network \<Rightarrow> search_args \<Rightarrow> int list
    \<Rightarrow> search_state
    \<Rightarrow> search_state \<times> unit flow" where
  "pages lib net a [] st = (st, Normal ())"
| "pages lib net a (start # rest) st =
     (let num = min 10 (num_results a - int (length (results st)))
      in case attempts lib net a start num (length (api_keys a)) st of
           (st', Raise e) \<Rightarrow> (st', Raise e)
         | (st', Return p l) \<Rightarrow> (st', Return p l)
         | (st', Normal success) \<Rightarrow>
             if \<not> success then (st'\<lparr>console := console st' @
                 [AllKeysFailedMsg]\<rparr>, Normal ())
             else if num_results a \<le> int (length (results st')) then (st', Normal ())
             else pages lib net a rest (st'\<lparr>sleeps := sleeps st' + 1\<rparr>))"

text \<open>
  What a call of \<^verbatim>\<open>google_search\<close> gives: an exception, or the triple
  \<^verbatim>\<open>results, position, found_link\<close>.
\<close>

datatype outcome = Raised py_error | Returned "result list" "nat option" "string option"

definition init_state :: search_state where
  "init_state = \<lparr>results = [], key_cycle = 0, calls = [], console = [], sleeps = 0\<rparr>"

text \<open>
  \<^verbatim>\<open>google_search\<close>: its outcome, and the final state for the effects it
  had.
\<close>

definition google_search :: "library \<Rightarrow> network \<Rightarrow> search_args
    \<Rightarrow> outcome \<times> search_state" where
  "google_search lib net a =
     (case pages lib net a (range10 1 (num_results a + 1)) init_state of
        (st, Raise e) \<Rightarrow> (Raised e, st)
      | (st, Return p l) \<Rightarrow> (Returned (results st) (Some p) l, st)
      | (st, Normal u) \<Rightarrow> (Returned (results st) None None, st))"

section \<open>The script body\<close>

text \<open>
  The values of \<^verbatim>\<open>args\<close> the script reads
  (\<^verbatim>\<open>args.proxy\<close> is part of \<open>net\<close>).
\<close>

record cli_args =
  arg_keyword :: string
  arg_domain :: string
  arg_country :: string
  arg_results :: int

text \<open>
  The file system: the text of every file that exists; the paths on which
  \<^verbatim>\<open>open(path, "a")\<close> raises OSError; and for each path how many more
  characters the device takes (\<open>None\<close> when there is no limit). A write that goes
  beyond the limit stores what fits and raises OSError. Writes are taken as unbuffered.
\<close>

record filesystem =
  files :: "string \<Rightarrow> string option"
  open_fails :: "string \<Rightarrow> bool"
  room :: "string \<Rightarrow> nat option"

definition file_text :: "filesystem \<Rightarrow> string \<Rightarrow> string" where
  "file_text fs path = (case files fs path of None \<Rightarrow> [] | Some s \<Rightarrow> s)"

text \<open>\<^verbatim>\<open>f.write(s)\<close> on a file opened in mode
    \<^verbatim>\<open>"a"\<close>.\<close>

definition write_file :: "filesystem \<Rightarrow> string \<Rightarrow> string \<Rightarrow>
    filesystem \<times> py_error option" where
  "write_file fs path s =
     (case room fs path of
        None \<Rightarrow> (fs\<lparr>files := (files fs)(path \<mapsto> file_text fs path @
            s)\<rparr>, None)
      | Some n \<Rightarrow>
          if length s \<le> n then
            (fs\<lparr>files := (files fs)(path \<mapsto> file_text fs path @ s),
                room := (room fs)(path := Some (n - length s))\<rparr>, None)
          else
            (fs\<lparr>files := (files fs)(path \<mapsto> file_text fs path @ take n s),
                room := (room fs)(path := Some 0)\<rparr>, Some OSError))"

text \<open>
  \<^verbatim>\<open>str(n)\<close> for a natural number, and the text an f-string gives for a
  link.
\<close>

fun str_nat :: "nat \<Rightarrow> string" where
  "str_nat n =
     (if n < 10 then [char_of (48 + n)]
      else str_nat (n div 10) @ [char_of (48 + n mod 10)])"

declare str_nat.simps [simp del]

definition str_link :: "string option \<Rightarrow> string" where
  "str_link l = (case l of None \<Rightarrow> ''None'' | Some s \<Rightarrow> s)"

text \<open>
  \<^verbatim>\<open>datetime.now().strftime("%Y-%m-%d")\<close> for the day the clock shows:
  the year on four digits, the month and the day on two.
\<close>

record date =
  year :: nat
  month :: nat
  day :: nat

definition zero_pad :: "nat \<Rightarrow> string \<Rightarrow> string" where
  "zero_pad w s = replicate (w - length s) (CHR ''0'') @ s"

definition strftime_Ymd :: "date \<Rightarrow> string" where
  "strftime_Ymd d =
     zero_pad 4 (str_nat (year d)) @ ''-'' @ zero_pad 2 (str_nat (month d)) @ ''-''
       @ zero_pad 2 (str_nat (day d))"

text \<open>Line 149: the name of the output file.\<close>

definition output_file :: "string \<Rightarrow> string \<Rightarrow> string" where
  "output_file keyword ctry =
     ''seo_results_'' @ map (\<lambda>c. if c = CHR '' '' then CHR ''_'' else c) keyword
       @ ''_'' @ ctry @ ''.txt''"

text \<open>Line 154: the line written for a result.\<close>

definition log_line :: "string \<Rightarrow> result \<Rightarrow> string" where
  "log_line fecha_hoy r =
     fecha_hoy @ ''|'' @ str_link (link r) @ ''|'' @ str_nat (position r) @ [CHR 0x0A]"

text \<open>Lines 153 and 154: the loop that writes the results.\<close>

fun write_results :: "filesystem \<Rightarrow> string \<Rightarrow> string \<Rightarrow> result list
    \<Rightarrow> filesystem \<times> py_error option" where
  "write_results fs path fecha_hoy [] = (fs, None)"
| "write_results fs path fecha_hoy (r # rs) =
     (case write_file fs path (log_line fecha_hoy r) of
        (fs', Some e) \<Rightarrow> (fs', Some e)
      | (fs', None) \<Rightarrow> write_results fs' path fecha_hoy rs)"

text \<open>
  Lines 152 to 154: the \<^verbatim>\<open>with open(output_file, "a")\<close> block. Opening
  creates the file when it is missing. The result is the file system afterwards and the
  exception that left the block, if any.
\<close>

definition save_results :: "filesystem \<Rightarrow> string \<Rightarrow> string \<Rightarrow>
    result list
    \<Rightarrow> filesystem \<times> py_error option" where
  "save_results fs path fecha_hoy rs =
     (if open_fails fs path then (fs, Some OSError)
      else write_results (fs\<lparr>files := (files fs)(path \<mapsto> file_text fs path)\<rparr>)
             path fecha_hoy rs)"

text \<open>
  How the process ends: \<^verbatim>\<open>sys.exit(n)\<close> or the end of the script
  (\<open>Exit 0\<close>), or an exception nothing catches, for which the interpreter prints a
  traceback and gives the exit status 1.
\<close>

datatype exit = Exit int | Uncaught py_error

definition exit_code :: "exit \<Rightarrow> int" where
  "exit_code e = (case e of Exit n \<Rightarrow> n | Uncaught err \<Rightarrow> 1)"

record run =
  run_exit :: exit
  run_console :: "message list"
  run_calls :: "(params \<times> response) list"
  run_files :: filesystem

text \<open>Lines 142 to 146: the verdict; \<^verbatim>\<open>if position\<close> is false for
    \<^verbatim>\<open>None\<close> and for 0.\<close>

definition verdict :: "string \<Rightarrow> int \<Rightarrow> nat option \<Rightarrow> string
    option \<Rightarrow> message list" where
  "verdict target n pos found_link =
     (case pos of
        None \<Rightarrow> [NotFoundMsg target n]
      | Some p \<Rightarrow>
          if p \<noteq> 0 then [FoundMsg target p, FoundLinkMsg found_link]
          else [NotFoundMsg target n])"

text \<open>Lines 134 to 140: the arguments of the call of
    \<^verbatim>\<open>google_search\<close>.\<close>

definition call_args :: "string list \<Rightarrow> string list \<Rightarrow> cli_args
    \<Rightarrow> search_args" where
  "call_args API_KEYS CXS args =
     \<lparr>query = arg_keyword args, api_keys = API_KEYS, cxs = CXS,
      num_results = arg_results args, country = arg_country args,
      target_domain = Some (arg_domain args)\<rparr>"

text \<open>
  Lines 105 to 156, after the arguments are parsed. The lists
  \<^verbatim>\<open>API_KEYS\<close> and \<^verbatim>\<open>CXS\<close> are constants of the
  script and arguments here.
\<close>

definition main :: "library \<Rightarrow> network \<Rightarrow> filesystem \<Rightarrow> date
    \<Rightarrow> string list \<Rightarrow> string list
    \<Rightarrow> cli_args \<Rightarrow> run" where
  "main lib net fs today API_KEYS CXS args =
     (if length API_KEYS \<noteq> length CXS then
        \<lparr>run_exit = Exit 1, run_console = [CountMismatchMsg], run_calls = [], run_files =
            fs\<rparr>
      else
        let searching = SearchingMsg (arg_keyword args) (arg_country args)
        in case google_search lib net (call_args API_KEYS CXS args) of
             (Raised e, st) \<Rightarrow>
               \<lparr>run_exit = Uncaught e, run_console = searching # console st,
                run_calls = calls st, run_files = fs\<rparr>
           | (Returned search_results pos found_link, st) \<Rightarrow>
               let printed = searching # console st
                     @ verdict (arg_domain args) (arg_results args) pos found_link;
                   path = output_file (arg_keyword args) (arg_country args)
               in case save_results fs path (strftime_Ymd today) search_results of
                    (fs', Some e) \<Rightarrow>
                      \<lparr>run_exit = Uncaught e, run_console = printed,
                       run_calls = calls st, run_files = fs'\<rparr>
                  | (fs', None) \<Rightarrow>
                      \<lparr>run_exit = Exit 0, run_console = printed @ [SavedMsg path],
                       run_calls = calls st, run_files = fs'\<rparr>)"

section \<open>Notions used in the statements\<close>

text \<open>The item a result was made from.\<close>

definition item_of :: "result \<Rightarrow> item" where
  "item_of r = \<lparr>title = title r, link = link r, snippet = snippet r\<rparr>"

text \<open>The positions of a list of results are 1, 2, 3 and so on.\<close>

definition sequential :: "result list \<Rightarrow> bool" where
  "sequential rs = (map position rs = [1..<Suc (length rs)])"

text \<open>A request that did not give a list of items.\<close>

definition failed :: "response \<Rightarrow> bool" where
  "failed r = (r = Status429 \<or> r = RequestError \<or> r = NoItems)"

text \<open>A text of the form \<^verbatim>\<open>YYYY-MM-DD\<close>.\<close>

definition is_digit :: "char \<Rightarrow> bool" where
  "is_digit c = (c \<in> set ''0123456789'')"

definition date_shaped :: "string \<Rightarrow> bool" where
  "date_shaped s =
     (length s = 10 \<and> s ! 4 = CHR ''-'' \<and> s ! 7 = CHR ''-''
      \<and> list_all is_digit (take 4 s @ take 2 (drop 5 s) @ drop 8 s))"



section \<open>A small world for the examples\<close>

text \<open>
  The examples read the network location of a link as the text between the first
  \<^verbatim>\<open>//\<close> and the next \<^verbatim>\<open>/\<close>,
      \<^verbatim>\<open>?\<close> or \<^verbatim>\<open>#\<close>, which is what
      \<^verbatim>\<open>urlparse\<close> gives for
  the links used below.
\<close>

fun after_slashes :: "string \<Rightarrow> string" where
  "after_slashes (a # b # cs) =
     (if a = CHR ''/'' \<and> b = CHR ''/'' then cs else after_slashes (b # cs))"
| "after_slashes cs = []"

definition netloc_of :: "string \<Rightarrow> py_error + string" where
  "netloc_of url =
     Inr (takeWhile (\<lambda>c. c \<noteq> CHR ''/'' \<and> c \<noteq> CHR ''?'' \<and> c
         \<noteq> CHR ''#'')
            (after_slashes url))"

text \<open>
  \<^verbatim>\<open>str.lower\<close> on ASCII text, for the examples: the letters A to Z are
  folded, every other character is left as it is.
\<close>

definition lower_char :: "char \<Rightarrow> char" where
  "lower_char c =
     (let n = (of_char c :: nat) in if 65 \<le> n \<and> n \<le> 90 then char_of (n + 32) else c)"

definition lower :: "string \<Rightarrow> string" where
  "lower s = map lower_char s"

text \<open>The library of the examples, whose links, hosts and targets are ASCII text.\<close>

definition ascii_lib :: library where
  "ascii_lib = \<lparr>urlparse_netloc = netloc_of, str_lower = lower\<rparr>"

definition page_item :: "string \<Rightarrow> string \<Rightarrow> item" where
  "page_item t l = \<lparr>title = Some t, link = Some l, snippet = None\<rparr>"

text \<open>A page of five items: the fourth and the fifth are on the target domain.\<close>

definition imgur_page :: "item list" where
  "imgur_page =
     [page_item ''Postimages'' ''https://postimages.org/'',
      page_item ''ImgBB'' ''https://imgbb.com/upload'',
      page_item ''Hosts compared'' ''https://www.example.org/imgur.com-review'',
      page_item ''Imgur'' ''https://www.imgur.com/upload'',
      page_item ''Imgur gallery'' ''https://imgur.com/gallery'']"

text \<open>The first key is over its quota on every request, the second key serves page 1.\<close>

definition two_keys_net :: network where
  "two_keys_net k ps =
     (if param_key ps = ''KEY-A'' then Status429
      else if param_start ps = 1 then Items imgur_page else NoItems)"

definition imgur_args :: search_args where
  "imgur_args = \<lparr>query = ''free image hosting'', api_keys = [''KEY-A'', ''KEY-B''],
     cxs = [''CX-A'', ''CX-B''], num_results = 20, country = ''us'',
     target_domain = Some ''imgur.com''\<rparr>"

text \<open>A file system with no file, where every file can be opened and written.\<close>

definition plain_fs :: filesystem where
  "plain_fs = \<lparr>files = Map.empty, open_fails = (\<lambda>path. False), room =
      (\<lambda>path. None)\<rparr>"

text \<open>A file system where the output file of an earlier run exists.\<close>

definition logged_fs :: filesystem where
  "logged_fs =
     \<lparr>files = [''seo_results_free_image_hosting_us.txt''
                 \<mapsto> ''2026-11-02|https://postimages.org/|1'' @ [CHR 0x0A]],
      open_fails = (\<lambda>path. False), room = (\<lambda>path. None)\<rparr>"

definition two_results :: "result list" where
  "two_results = foldl append_item [] (take 2 imgur_page)"

text \<open>A file system where no file can be opened, the arguments of two runs, and a day.\<close>

definition locked_fs :: filesystem where
  "locked_fs = \<lparr>files = Map.empty, open_fails = (\<lambda>path. True), room =
      (\<lambda>path. None)\<rparr>"

definition imgur_cli :: cli_args where
  "imgur_cli = \<lparr>arg_keyword = ''free image hosting'', arg_domain = ''imgur.com'',
     arg_country = ''us'', arg_results = 20\<rparr>"

definition nowhere_cli :: cli_args where
  "nowhere_cli = \<lparr>arg_keyword = ''free image hosting'', arg_domain = ''nowhere.net'',
     arg_country = ''us'', arg_results = 20\<rparr>"

definition nov3 :: date where
  "nov3 = \<lparr>year = 2026, month = 11, day = 3\<rparr>"

text \<open>A file system whose device takes ten more characters for every file.\<close>

definition full_fs :: filesystem where
  "full_fs = \<lparr>files = Map.empty, open_fails = (\<lambda>path. False), room =
      (\<lambda>path. Some 10)\<rparr>"

text \<open>
  A network where every request is over the quota, one where only the first request of the
  run is answered, and a search for a domain that is on no page.
\<close>

definition dead_net :: network where
  "dead_net k ps = Status429"

definition first_call_net :: network where
  "first_call_net k ps = (if k = 0 then Items imgur_page else RequestError)"

definition nowhere_args :: search_args where
  "nowhere_args = imgur_args\<lparr>target_domain := Some ''nowhere.net''\<rparr>"






section \<open>The loop over the items\<close>

lemma length_append_item: "length (append_item rs it) = Suc (length rs)"
  by (simp add: append_item_def)

lemma sequential_append_item: "sequential rs \<Longrightarrow> sequential (append_item rs it)"
  by (simp add: sequential_def append_item_def)

lemma length_foldl_append_item: "length (foldl append_item rs its) = length rs + length its"
  by (induction its arbitrary: rs) (simp_all add: length_append_item)

lemma sequential_foldl: "sequential rs \<Longrightarrow> sequential (foldl append_item rs its)"
  by (induction its arbitrary: rs) (simp_all add: sequential_append_item)

lemma map_item_of_foldl: "map item_of (foldl append_item rs its) = map item_of rs @ its"
  by (induction its arbitrary: rs) (simp_all add: append_item_def item_of_def)

lemma items_loop_prefix:
  "\<exists>n\<le>length its. fst (items_loop nl t its rs) = foldl append_item rs (take n its)"
proof (induction its arbitrary: rs)
  case Nil
  then show ?case by simp
next
  case (Cons it its)
  show ?case
  proof (cases "domain_found nl t (link it)")
    case (Inl e)
    have "fst (items_loop nl t (it # its) rs) = foldl append_item rs (take 1 (it # its))"
      using Inl by simp
    then show ?thesis by (metis One_nat_def Suc_leI length_Cons zero_less_Suc)
  next
    case (Inr b)
    show ?thesis
    proof (cases b)
      case True
      have "fst (items_loop nl t (it # its) rs) = foldl append_item rs (take 1 (it # its))"
        using Inr True by simp
      then show ?thesis by (metis One_nat_def Suc_leI length_Cons zero_less_Suc)
    next
      case False
      obtain n where n: "n \<le> length its"
        "fst (items_loop nl t its (append_item rs it)) = foldl append_item (append_item rs it)
            (take n its)"
        using Cons.IH by blast
      have "fst (items_loop nl t (it # its) rs) = foldl append_item rs (take (Suc n) (it # its))"
        using Inr False n by simp
      moreover have "Suc n \<le> length (it # its)" using n by simp
      ultimately show ?thesis by blast
    qed
  qed
qed

lemma items_loop_Normal:
  "items_loop nl t its rs = (rs', Normal u) \<Longrightarrow>
     rs' = foldl append_item rs its \<and> (\<forall>it\<in>set its. domain_found nl t (link it) =
         Inr False)"
  by (induction its arbitrary: rs) (auto simp: Let_def split: sum.splits bool.splits if_splits)

lemma items_loop_Return:
  "items_loop nl t its rs = (rs', Return p l) \<Longrightarrow>
     \<exists>k<length its. rs' = foldl append_item rs (take (Suc k) its) \<and> p = length rs +
         Suc k
        \<and> l = link (its ! k) \<and> domain_found nl t (link (its ! k)) = Inr True
        \<and> (\<forall>j<k. domain_found nl t (link (its ! j)) = Inr False)"
proof (induction its arbitrary: rs)
  case Nil
  then show ?case by simp
next
  case (Cons it its)
  show ?case
  proof (cases "domain_found nl t (link it)")
    case (Inl e)
    then show ?thesis using Cons.prems by simp
  next
    case (Inr b)
    show ?thesis
    proof (cases b)
      case True
      then have "rs' = foldl append_item rs (take (Suc 0) (it # its)) \<and> p = length rs + Suc 0
        \<and> l = link ((it # its) ! 0) \<and> domain_found nl t (link ((it # its) ! 0)) = Inr
            True"
        using Inr Cons.prems by simp
      then show ?thesis by (intro exI[of _ 0]) simp
    next
      case False
      then have "items_loop nl t its (append_item rs it) = (rs', Return p l)"
        using Inr Cons.prems by simp
      from Cons.IH[OF this] obtain k where k: "k < length its"
        "rs' = foldl append_item (append_item rs it) (take (Suc k) its)"
        "p = length (append_item rs it) + Suc k" "l = link (its ! k)"
        "domain_found nl t (link (its ! k)) = Inr True"
        "\<forall>j<k. domain_found nl t (link (its ! j)) = Inr False"
        by blast
      have "\<forall>j<Suc k. domain_found nl t (link ((it # its) ! j)) = Inr False"
        using k(6) Inr False by (auto simp: less_Suc_eq_0_disj)
      then show ?thesis using k
        by (intro exI[of _ "Suc k"]) (simp add: length_append_item)
    qed
  qed
qed

section \<open>One request\<close>


lemma map_link_foldl:
  "map link (foldl append_item rs its) = map link rs @ map link its"
  by (induction its arbitrary: rs) (simp_all add: append_item_def)

text \<open>One pass over the credentials, case by case.\<close>

lemma attempt_cases:
  obtains
    (stop) "next_key a (key_cycle st) = None"
      "attempt nl net a start num st = (st, Raise StopIteration)"
  | (fail) api_key cx ps resp msg where
      "next_key a (key_cycle st) = Some (api_key, cx)"
      "ps = \<lparr>param_q = query a, param_start = start, param_num = num,
             param_gl = country a, param_key = api_key, param_cx = cx\<rparr>"
      "resp = net (length (calls st)) ps" "failed resp"
      "attempt nl net a start num st =
         (st\<lparr>key_cycle := key_cycle st + 1, calls := calls st @ [(ps, resp)],
             console := console st @ [msg]\<rparr>, Normal False)"
  | (items) api_key cx ps its rs f where
      "next_key a (key_cycle st) = Some (api_key, cx)"
      "ps = \<lparr>param_q = query a, param_start = start, param_num = num,
             param_gl = country a, param_key = api_key, param_cx = cx\<rparr>"
      "net (length (calls st)) ps = Items its"
      "items_loop nl (target_domain a) its (results st) = (rs, f)"
      "attempt nl net a start num st =
         (st\<lparr>key_cycle := key_cycle st + 1, calls := calls st @ [(ps, Items its)],
             results := rs\<rparr>,
          case f of Raise e \<Rightarrow> Raise e | Return p l \<Rightarrow> Return p l | Normal u
              \<Rightarrow> Normal True)"
proof (cases "next_key a (key_cycle st)")
  case None
  then show ?thesis using stop by (simp add: attempt_def)
next
  case (Some kc)
  obtain api_key cx where kc: "kc = (api_key, cx)" by (cases kc)
  define ps where "ps = \<lparr>param_q = query a, param_start = start, param_num = num,
             param_gl = country a, param_key = api_key, param_cx = cx\<rparr>"
  show ?thesis
  proof (cases "net (length (calls st)) ps")
    case Status429
    show ?thesis
      by (rule fail[of api_key cx ps Status429 "QuotaExceededMsg api_key"])
         (use Some kc Status429 ps_def in \<open>simp_all add: attempt_def failed_def\<close>)
  next
    case RequestError
    show ?thesis
      by (rule fail[of api_key cx ps RequestError "ErrorMsg api_key"])
         (use Some kc RequestError ps_def in \<open>simp_all add: attempt_def failed_def\<close>)
  next
    case NoItems
    show ?thesis
      by (rule fail[of api_key cx ps NoItems "NoResultsMsg api_key"])
         (use Some kc NoItems ps_def in \<open>simp_all add: attempt_def failed_def\<close>)
  next
    case (Items its)
    obtain rs f where rf: "items_loop nl (target_domain a) its (results st) = (rs, f)"
      by (cases "items_loop nl (target_domain a) its (results st)")
    show ?thesis
      by (rule items[of api_key cx ps its rs f])
         (use Some kc Items ps_def rf in \<open>simp_all add: attempt_def split:
             flow.splits\<close>)
  qed
qed

lemma attempt_continue:
  assumes "attempt nl net a start num st = (st', Normal False)"
  shows "results st' = results st \<and> sleeps st' = sleeps st
    \<and> key_cycle st' = Suc (key_cycle st)
    \<and> (\<exists>ps r. calls st' = calls st @ [(ps, r)] \<and> failed r \<and> r = net (length
        (calls st)) ps
          \<and> param_start ps = start \<and> param_num ps = num)"
proof (cases rule: attempt_cases[of a st nl net start num])
  case stop
  then show ?thesis using assms by simp
next
  case (fail api_key cx ps resp msg)
  then show ?thesis using assms by auto
next
  case (items api_key cx ps its rs f)
  then show ?thesis using assms by (auto split: flow.splits)
qed

lemma attempt_success:
  assumes "attempt nl net a start num st = (st', Normal True)"
  shows "sleeps st' = sleeps st \<and> key_cycle st' = Suc (key_cycle st)
    \<and> (\<exists>ps its. calls st' = calls st @ [(ps, Items its)]
          \<and> net (length (calls st)) ps = Items its
          \<and> param_start ps = start \<and> param_num ps = num
          \<and> items_loop nl (target_domain a) its (results st) = (results st', Normal ()))"
proof (cases rule: attempt_cases[of a st nl net start num])
  case stop
  then show ?thesis using assms by simp
next
  case (fail api_key cx ps resp msg)
  then show ?thesis using assms by auto
next
  case (items api_key cx ps its rs f)
  then show ?thesis using assms by (auto split: flow.splits)
qed

lemma attempt_return:
  assumes "attempt nl net a start num st = (st', Return p l)"
  shows "sleeps st' = sleeps st
    \<and> (\<exists>ps its. calls st' = calls st @ [(ps, Items its)]
          \<and> param_start ps = start \<and> param_num ps = num
          \<and> items_loop nl (target_domain a) its (results st) = (results st', Return p l))"
proof (cases rule: attempt_cases[of a st nl net start num])
  case stop
  then show ?thesis using assms by simp
next
  case (fail api_key cx ps resp msg)
  then show ?thesis using assms by auto
next
  case (items api_key cx ps its rs f)
  then show ?thesis using assms by (auto split: flow.splits)
qed

lemma attempt_calls:
  assumes "attempt nl net a start num st = (st', f)"
  shows "\<exists>new. calls st' = calls st @ new \<and> length new \<le> 1
    \<and> (\<forall>c\<in>set new. param_start (fst c) = start \<and> param_num (fst c) = num)"
proof (cases rule: attempt_cases[of a st nl net start num])
  case stop
  then show ?thesis using assms by simp
next
  case (fail api_key cx ps resp msg)
  then have "calls st' = calls st @ [(ps, resp)]" "param_start ps = start" "param_num ps = num"
    using assms by auto
  then show ?thesis by (intro exI[of _ "[(ps, resp)]"]) simp
next
  case (items api_key cx ps its rs f)
  then have "calls st' = calls st @ [(ps, Items its)]" "param_start ps = start" "param_num ps = num"
    using assms by auto
  then show ?thesis by (intro exI[of _ "[(ps, Items its)]"]) simp
qed

lemma attempt_results:
  assumes "attempt nl net a start num st = (st', f)"
  shows "\<exists>its. results st' = foldl append_item (results st) its"
proof (cases rule: attempt_cases[of a st nl net start num])
  case stop
  then have "results st' = foldl append_item (results st) []" using assms by simp
  then show ?thesis by blast
next
  case (fail api_key cx ps resp msg)
  then have "results st' = foldl append_item (results st) []" using assms by auto
  then show ?thesis by blast
next
  case (items api_key cx ps its rs f)
  obtain n where "fst (items_loop nl (target_domain a) its (results st))
        = foldl append_item (results st) (take n its)"
    using items_loop_prefix by blast
  moreover have "results st' = rs" using items assms by auto
  ultimately show ?thesis using items(4) by (metis fst_conv)
qed

section \<open>The loop over the credentials\<close>


lemma attempts_calls:
  "attempts nl net a start num n st = (st', f) \<Longrightarrow>
     \<exists>new. calls st' = calls st @ new \<and> length new \<le> n
       \<and> (\<forall>c\<in>set new. param_start (fst c) = start \<and> param_num (fst c) = num)"
proof (induction n arbitrary: st)
  case 0
  then show ?case by simp
next
  case (Suc n)
  obtain st1 f1 where a1: "attempt nl net a start num st = (st1, f1)"
    by (cases "attempt nl net a start num st")
  obtain new1 where new1: "calls st1 = calls st @ new1" "length new1 \<le> 1"
    "\<forall>c\<in>set new1. param_start (fst c) = start \<and> param_num (fst c) = num"
    using attempt_calls[OF a1] by blast
  show ?case
  proof (cases "f1 = Normal False")
    case True
    then have "attempts nl net a start num n st1 = (st', f)"
      using Suc.prems a1 by simp
    from Suc.IH[OF this] obtain new where new: "calls st' = calls st1 @ new" "length new \<le> n"
      "\<forall>c\<in>set new. param_start (fst c) = start \<and> param_num (fst c) = num"
      by blast
    have "calls st' = calls st @ (new1 @ new)" using new1 new by simp
    moreover have "length (new1 @ new) \<le> Suc n" using new1 new by simp
    moreover have "\<forall>c\<in>set (new1 @ new). param_start (fst c) = start \<and> param_num
        (fst c) = num"
      using new1 new by auto
    ultimately show ?thesis by blast
  next
    case False
    then have "st' = st1" using Suc.prems a1
      by (auto split: flow.splits bool.splits)
    then show ?thesis using new1 by (intro exI[of _ new1]) simp
  qed
qed

lemma attempts_results:
  "attempts nl net a start num n st = (st', f) \<Longrightarrow>
     \<exists>its. results st' = foldl append_item (results st) its"
proof (induction n arbitrary: st)
  case 0
  then have "results st' = foldl append_item (results st) []" by simp
  then show ?case by blast
next
  case (Suc n)
  obtain st1 f1 where a1: "attempt nl net a start num st = (st1, f1)"
    by (cases "attempt nl net a start num st")
  obtain its1 where its1: "results st1 = foldl append_item (results st) its1"
    using attempt_results[OF a1] by blast
  show ?case
  proof (cases "f1 = Normal False")
    case True
    then have "attempts nl net a start num n st1 = (st', f)"
      using Suc.prems a1 by simp
    from Suc.IH[OF this] obtain its where "results st' = foldl append_item (results st1) its"
      by blast
    then have "results st' = foldl append_item (results st) (its1 @ its)"
      using its1 by simp
    then show ?thesis by blast
  next
    case False
    then have "st' = st1" using Suc.prems a1
      by (auto split: flow.splits bool.splits)
    then show ?thesis using its1 by blast
  qed
qed

text \<open>When every credential was tried in vain, nothing was appended.\<close>

lemma attempts_exhausted:
  "attempts nl net a start num n st = (st', Normal False) \<Longrightarrow>
     results st' = results st \<and> sleeps st' = sleeps st \<and> key_cycle st' = key_cycle st + n
     \<and> (\<exists>new. calls st' = calls st @ new \<and> length new = n \<and>
         (\<forall>c\<in>set new. failed (snd c)))"
proof (induction n arbitrary: st)
  case 0
  then show ?case by simp
next
  case (Suc n)
  obtain st1 f1 where a1: "attempt nl net a start num st = (st1, f1)"
    by (cases "attempt nl net a start num st")
  have f1: "f1 = Normal False" using Suc.prems a1
    by (auto split: flow.splits bool.splits)
  then have rest: "attempts nl net a start num n st1 = (st', Normal False)"
    using Suc.prems a1 by simp
  from attempt_continue[OF a1[unfolded f1]] obtain ps r where
    one: "results st1 = results st" "sleeps st1 = sleeps st" "key_cycle st1 = Suc (key_cycle st)"
      "calls st1 = calls st @ [(ps, r)]" "failed r"
    by blast
  from Suc.IH[OF rest] obtain new where
    more: "results st' = results st1" "sleeps st' = sleeps st1" "key_cycle st' = key_cycle st1 + n"
      "calls st' = calls st1 @ new" "length new = n" "\<forall>c\<in>set new. failed (snd c)"
    by blast
  have "calls st' = calls st @ ((ps, r) # new)" using one more by simp
  moreover have "length ((ps, r) # new) = Suc n" using more by simp
  moreover have "\<forall>c\<in>set ((ps, r) # new). failed (snd c)" using one more by simp
  ultimately show ?case using one more by (metis add_Suc_shift)
qed

text \<open>
  When a page succeeded or returned, the last request is the one that gave the items, and
  the requests before it appended nothing.
\<close>

lemma attempts_success:
  "attempts nl net a start num n st = (st', Normal True) \<Longrightarrow>
     sleeps st' = sleeps st
     \<and> (\<exists>ps its. calls st' \<noteq> [] \<and> last (calls st') = (ps, Items its)
           \<and> items_loop nl (target_domain a) its (results st) = (results st', Normal ()))"
proof (induction n arbitrary: st)
  case 0
  then show ?case by simp
next
  case (Suc n)
  obtain st1 f1 where a1: "attempt nl net a start num st = (st1, f1)"
    by (cases "attempt nl net a start num st")
  show ?case
  proof (cases "f1 = Normal False")
    case True
    then have rest: "attempts nl net a start num n st1 = (st', Normal True)"
      using Suc.prems a1 by simp
    have "results st1 = results st" "sleeps st1 = sleeps st"
      using attempt_continue[OF a1[unfolded True]] by auto
    then show ?thesis using Suc.IH[OF rest] by simp
  next
    case False
    then have "st' = st1" "f1 = Normal True" using Suc.prems a1
      by (auto split: flow.splits bool.splits)
    then show ?thesis using attempt_success[of nl net a start num st st'] a1 by auto
  qed
qed

lemma attempts_return:
  "attempts nl net a start num n st = (st', Return p l) \<Longrightarrow>
     sleeps st' = sleeps st
     \<and> (\<exists>ps its. calls st' \<noteq> [] \<and> last (calls st') = (ps, Items its)
           \<and> items_loop nl (target_domain a) its (results st) = (results st', Return p l))"
proof (induction n arbitrary: st)
  case 0
  then show ?case by simp
next
  case (Suc n)
  obtain st1 f1 where a1: "attempt nl net a start num st = (st1, f1)"
    by (cases "attempt nl net a start num st")
  show ?case
  proof (cases "f1 = Normal False")
    case True
    then have rest: "attempts nl net a start num n st1 = (st', Return p l)"
      using Suc.prems a1 by simp
    have "results st1 = results st" "sleeps st1 = sleeps st"
      using attempt_continue[OF a1[unfolded True]] by auto
    then show ?thesis using Suc.IH[OF rest] by simp
  next
    case False
    then have "st' = st1" "f1 = Return p l" using Suc.prems a1
      by (auto split: flow.splits bool.splits)
    then show ?thesis using attempt_return[of nl net a start num st st' p l] a1 by auto
  qed
qed

section \<open>The loop over the pages\<close>


lemma pages_results:
  "pages nl net a ss st = (st', f) \<Longrightarrow>
     \<exists>its. results st' = foldl append_item (results st) its"
proof (induction ss arbitrary: st)
  case Nil
  then have "results st' = foldl append_item (results st) []" by simp
  then show ?case by blast
next
  case (Cons s ss)
  define num where "num = min 10 (num_results a - int (length (results st)))"
  obtain st1 f1 where a1: "attempts nl net a s num (length (api_keys a)) st = (st1, f1)"
    by (cases "attempts nl net a s num (length (api_keys a)) st")
  obtain its1 where its1: "results st1 = foldl append_item (results st) its1"
    using attempts_results[OF a1] by blast
  show ?case
  proof (cases "f1 = Normal True \<and> \<not> num_results a \<le> int (length (results st1))")
    case True
    then have "pages nl net a ss (st1\<lparr>sleeps := sleeps st1 + 1\<rparr>) = (st', f)"
      using Cons.prems a1 by (simp add: num_def)
    from Cons.IH[OF this] obtain its where "results st' = foldl append_item (results st1) its"
      by auto
    then have "results st' = foldl append_item (results st) (its1 @ its)"
      using its1 by simp
    then show ?thesis by blast
  next
    case False
    then have "results st' = results st1" using Cons.prems a1
      by (auto simp: num_def split: flow.splits if_splits)
    then show ?thesis using its1 by (intro exI[of _ its1]) simp
  qed
qed

lemma items_loop_keeps_unmatched:
  assumes "items_loop nl t its rs = (rs', Normal u)"
    and "\<forall>r\<in>set rs. domain_found nl t (link r) = Inr False"
  shows "\<forall>r\<in>set rs'. domain_found nl t (link r) = Inr False"
proof -
  have rs': "rs' = foldl append_item rs its"
    and its: "\<forall>it\<in>set its. domain_found nl t (link it) = Inr False"
    using items_loop_Normal[OF assms(1)] by auto
  have "set (map link rs') = set (map link rs) \<union> set (map link its)"
    by (simp add: rs' map_link_foldl)
  then have "\<forall>l\<in>set (map link rs'). domain_found nl t l = Inr False"
    using assms(2) its by auto
  then show ?thesis by simp
qed

text \<open>
  The loop over the pages goes on only while no accumulated result matches: when it
  returns from inside, the last request gave the items that were being appended, and
  nothing appended before them matched.
\<close>

lemma pages_return:
  "pages nl net a ss st = (st', Return p l) \<Longrightarrow>
   \<forall>r\<in>set (results st). domain_found nl (target_domain a) (link r) = Inr False
       \<Longrightarrow>
     \<exists>ps its base. calls st' \<noteq> [] \<and> last (calls st') = (ps, Items its)
       \<and> items_loop nl (target_domain a) its base = (results st', Return p l)
       \<and> (\<forall>r\<in>set base. domain_found nl (target_domain a) (link r) = Inr False)"
proof (induction ss arbitrary: st)
  case Nil
  then show ?case by simp
next
  case (Cons s ss)
  define num where "num = min 10 (num_results a - int (length (results st)))"
  obtain st1 f1 where a1: "attempts nl net a s num (length (api_keys a)) st = (st1, f1)"
    by (cases "attempts nl net a s num (length (api_keys a)) st")
  show ?case
  proof (cases f1)
    case (Raise e)
    then show ?thesis using Cons.prems(1) a1 by (simp add: num_def)
  next
    case (Return p1 l1)
    then have "st' = st1" "p1 = p" "l1 = l" using Cons.prems(1) a1 by (simp_all add: num_def)
    then show ?thesis using attempts_return[of nl net a s num _ st st' p l] a1 Return Cons.prems(2)
      by blast
  next
    case (Normal success)
    then have succ: "success" and more: "\<not> num_results a \<le> int (length (results st1))"
      and rest: "pages nl net a ss (st1\<lparr>sleeps := sleeps st1 + 1\<rparr>) = (st', Return p
          l)"
      using Cons.prems(1) a1 by (auto simp: num_def split: if_splits)
    obtain ps its where "items_loop nl (target_domain a) its (results st) = (results st1, Normal
        ())"
      using attempts_success[of nl net a s num _ st st1] a1 Normal succ by auto
    then have "\<forall>r\<in>set (results st1). domain_found nl (target_domain a) (link r) = Inr
        False"
      using items_loop_keeps_unmatched Cons.prems(2) by blast
    then show ?thesis using Cons.IH[OF rest] by simp
  qed
qed


section \<open>The whole search\<close>


lemma sequential_nth: "sequential rs \<Longrightarrow> i < length rs \<Longrightarrow> position
    (rs ! i) = i + 1"
proof -
  assume s: "sequential rs" and i: "i < length rs"
  have "position (rs ! i) = map position rs ! i" using i by simp
  also have "\<dots> = [1..<Suc (length rs)] ! i" using s by (simp add: sequential_def)
  also have "\<dots> = i + 1" using i by (simp add: nth_upt del: upt_Suc)
  finally show ?thesis .
qed


lemma google_search_results:
  "\<exists>its. results (snd (google_search nl net a)) = foldl append_item [] its"
proof -
  obtain st f where p: "pages nl net a (range10 1 (num_results a + 1)) init_state = (st, f)"
    by (cases "pages nl net a (range10 1 (num_results a + 1)) init_state")
  have "snd (google_search nl net a) = st"
    using p by (simp add: google_search_def split: flow.splits)
  moreover have "\<exists>its. results st = foldl append_item (results init_state) its"
    using pages_results[OF p] .
  ultimately show ?thesis by (simp add: init_state_def)
qed

lemma google_search_returned:
  assumes "fst (google_search nl net a) = Returned rs pos fl"
  shows "rs = results (snd (google_search nl net a))"
  using assms by (auto simp: google_search_def split: prod.splits flow.splits)

text \<open>The shape of a search that returns from inside the loop over the items.\<close>

lemma google_search_matched:
  assumes "fst (google_search nl net a) = Returned rs (Some p) fl"
  shows "\<exists>ps its k base. calls (snd (google_search nl net a)) \<noteq> []
     \<and> last (calls (snd (google_search nl net a))) = (ps, Items its)
     \<and> k < length its \<and> rs = foldl append_item base (take (Suc k) its)
     \<and> p = length base + Suc k \<and> fl = link (its ! k)
     \<and> domain_found nl (target_domain a) (link (its ! k)) = Inr True
     \<and> (\<forall>j<k. domain_found nl (target_domain a) (link (its ! j)) = Inr False)
     \<and> (\<forall>r\<in>set base. domain_found nl (target_domain a) (link r) = Inr False)"
proof -
  obtain st f where pg: "pages nl net a (range10 1 (num_results a + 1)) init_state = (st, f)"
    by (cases "pages nl net a (range10 1 (num_results a + 1)) init_state")
  have f: "f = Return p fl" and rs: "rs = results st" and st: "snd (google_search nl net a) = st"
    using assms pg by (auto simp: google_search_def split: flow.splits)
  have "\<forall>r\<in>set (results init_state). domain_found nl (target_domain a) (link r) = Inr
      False"
    by (simp add: init_state_def)
  from pages_return[OF pg[unfolded f] this] obtain ps its base where
    sh: "calls st \<noteq> []" "last (calls st) = (ps, Items its)"
      "items_loop nl (target_domain a) its base = (results st, Return p fl)"
      "\<forall>r\<in>set base. domain_found nl (target_domain a) (link r) = Inr False"
    by blast
  from items_loop_Return[OF sh(3)] obtain k where
    k: "k < length its" "results st = foldl append_item base (take (Suc k) its)"
      "p = length base + Suc k" "fl = link (its ! k)"
      "domain_found nl (target_domain a) (link (its ! k)) = Inr True"
      "\<forall>j<k. domain_found nl (target_domain a) (link (its ! j)) = Inr False"
    by blast
  show ?thesis
    unfolding st rs using sh(1,2,4) k by blast
qed


section \<open>Positions\<close>





lemma sequential_google_search: "sequential (results (snd (google_search nl net a)))"
proof -
  obtain its where "results (snd (google_search nl net a)) = foldl append_item [] its"
    using google_search_results by blast
  moreover have "sequential []" by (simp add: sequential_def)
  ultimately show ?thesis by (simp add: sequential_foldl)
qed




section \<open>Writing the result file, and the early exit\<close>


lemma write_file_text:
  "write_file fs path s = (fs', None) \<Longrightarrow> file_text fs' path = file_text fs path @ s"
  by (auto simp: file_text_def write_file_def split: option.splits if_splits)

lemma write_file_grows:
  "\<exists>t. file_text (fst (write_file fs path s)) path = file_text fs path @ t"
  by (simp add: file_text_def write_file_def split: option.splits)

lemma write_file_other:
  "other \<noteq> path \<Longrightarrow> files (fst (write_file fs path s)) other = files fs other"
  by (simp add: write_file_def split: option.splits)

lemma write_file_error: "snd (write_file fs path s) = Some e \<Longrightarrow> e = OSError"
  by (auto simp: write_file_def split: option.splits if_splits)

lemma write_file_unlimited:
  "room fs path = None \<Longrightarrow>
     snd (write_file fs path s) = None \<and> room (fst (write_file fs path s)) path = None
     \<and> open_fails (fst (write_file fs path s)) = open_fails fs"
  by (simp add: write_file_def)

lemma write_results_text:
  "write_results fs path d rs = (fs', None) \<Longrightarrow>
     file_text fs' path = file_text fs path @ concat (map (log_line d) rs)"
proof (induction rs arbitrary: fs)
  case Nil
  then show ?case by simp
next
  case (Cons r rs)
  obtain fs1 e1 where w: "write_file fs path (log_line d r) = (fs1, e1)"
    by (cases "write_file fs path (log_line d r)")
  then have e1: "e1 = None" and rest: "write_results fs1 path d rs = (fs', None)"
    using Cons.prems by (auto split: option.splits)
  have "file_text fs1 path = file_text fs path @ log_line d r"
    using write_file_text w e1 by simp
  then show ?case using Cons.IH[OF rest] by simp
qed

lemma write_results_grows:
  "\<exists>t. file_text (fst (write_results fs path d rs)) path = file_text fs path @ t"
proof (induction rs arbitrary: fs)
  case Nil
  then show ?case by simp
next
  case (Cons r rs)
  obtain fs1 e1 where w: "write_file fs path (log_line d r) = (fs1, e1)"
    by (cases "write_file fs path (log_line d r)")
  obtain t1 where t1: "file_text fs1 path = file_text fs path @ t1"
    using write_file_grows[of fs path "log_line d r"] w by auto
  show ?case
  proof (cases e1)
    case None
    obtain t where "file_text (fst (write_results fs1 path d rs)) path = file_text fs1 path @ t"
      using Cons.IH by blast
    then have "file_text (fst (write_results fs path d (r # rs))) path
        = file_text fs path @ (t1 @ t)"
      using w None t1 by simp
    then show ?thesis by blast
  next
    case (Some e)
    then show ?thesis using w t1 by simp
  qed
qed

lemma write_results_other:
  "other \<noteq> path \<Longrightarrow> files (fst (write_results fs path d rs)) other = files fs
      other"
proof (induction rs arbitrary: fs)
  case Nil
  then show ?case by simp
next
  case (Cons r rs)
  obtain fs1 e1 where w: "write_file fs path (log_line d r) = (fs1, e1)"
    by (cases "write_file fs path (log_line d r)")
  have "files fs1 other = files fs other"
    using write_file_other[OF Cons.prems, of fs "log_line d r"] w by simp
  then show ?case using w Cons.IH[OF Cons.prems, of fs1] by (cases e1) simp_all
qed

lemma write_results_error: "snd (write_results fs path d rs) = Some e \<Longrightarrow> e = OSError"
proof (induction rs arbitrary: fs)
  case Nil
  then show ?case by simp
next
  case (Cons r rs)
  obtain fs1 e1 where w: "write_file fs path (log_line d r) = (fs1, e1)"
    by (cases "write_file fs path (log_line d r)")
  show ?case
  proof (cases e1)
    case None
    then show ?thesis using Cons w by simp
  next
    case (Some e')
    then show ?thesis using Cons.prems w write_file_error[of fs path "log_line d r" e'] by simp
  qed
qed

lemma write_results_unlimited:
  "room fs path = None \<Longrightarrow>
     snd (write_results fs path d rs) = None \<and> room (fst (write_results fs path d rs)) path =
         None
     \<and> open_fails (fst (write_results fs path d rs)) = open_fails fs"
proof (induction rs arbitrary: fs)
  case Nil
  then show ?case by simp
next
  case (Cons r rs)
  obtain fs1 e1 where w: "write_file fs path (log_line d r) = (fs1, e1)"
    by (cases "write_file fs path (log_line d r)")
  have one: "e1 = None" "room fs1 path = None" "open_fails fs1 = open_fails fs"
    using write_file_unlimited[OF Cons.prems, of "log_line d r"] w by simp_all
  show ?case using w one Cons.IH[OF one(2)] by simp
qed

lemma save_results_text:
  "save_results fs path d rs = (fs', None) \<Longrightarrow>
     file_text fs' path = file_text fs path @ concat (map (log_line d) rs)"
proof -
  assume s: "save_results fs path d rs = (fs', None)"
  let ?fs0 = "fs\<lparr>files := (files fs)(path \<mapsto> file_text fs path)\<rparr>"
  have "write_results ?fs0 path d rs = (fs', None)"
    using s by (simp add: save_results_def split: if_splits)
  then have "file_text fs' path = file_text ?fs0 path @ concat (map (log_line d) rs)"
    by (rule write_results_text)
  then show ?thesis by (simp add: file_text_def)
qed

lemma save_results_grows:
  "\<exists>t. file_text (fst (save_results fs path d rs)) path = file_text fs path @ t"
proof (cases "open_fails fs path")
  case True
  then show ?thesis by (simp add: save_results_def)
next
  case False
  let ?fs0 = "fs\<lparr>files := (files fs)(path \<mapsto> file_text fs path)\<rparr>"
  obtain t where "file_text (fst (write_results ?fs0 path d rs)) path = file_text ?fs0 path @ t"
    using write_results_grows by blast
  then have "file_text (fst (save_results fs path d rs)) path = file_text fs path @ t"
    using False by (simp add: save_results_def file_text_def)
  then show ?thesis by blast
qed

lemma save_results_other:
  "other \<noteq> path \<Longrightarrow> files (fst (save_results fs path d rs)) other = files fs
      other"
  by (simp add: save_results_def write_results_other)

lemma save_results_error: "snd (save_results fs path d rs) = Some e \<Longrightarrow> e = OSError"
  by (auto simp: save_results_def write_results_error split: if_splits)

lemma save_results_unlimited:
  assumes "\<not> open_fails fs path" and "room fs path = None"
  shows "snd (save_results fs path d rs) = None
     \<and> \<not> open_fails (fst (save_results fs path d rs)) path
     \<and> room (fst (save_results fs path d rs)) path = None"
proof -
  let ?fs0 = "fs\<lparr>files := (files fs)(path \<mapsto> file_text fs path)\<rparr>"
  have "room ?fs0 path = None" using assms(2) by simp
  from write_results_unlimited[OF this, of d rs] show ?thesis
    using assms(1) by (simp add: save_results_def)
qed

lemma nth_link_foldl:
  "i < length rs + length its \<Longrightarrow>
     link (foldl append_item rs its ! i)
       = (if i < length rs then link (rs ! i) else link (its ! (i - length rs)))"
proof -
  assume i: "i < length rs + length its"
  have "link (foldl append_item rs its ! i) = map link (foldl append_item rs its) ! i"
    using i by (simp add: length_foldl_append_item)
  also have "\<dots> = (map link rs @ map link its) ! i" by (simp add: map_link_foldl)
  also have "\<dots> = (if i < length rs then link (rs ! i) else link (its ! (i - length rs)))"
    using i by (simp add: nth_append)
  finally show ?thesis .
qed

text \<open>A returned match is the last result, and no result before it matches.\<close>

lemma google_search_matched_last:
  assumes "fst (google_search nl net a) = Returned rs (Some p) fl"
  shows "p = length rs \<and> 0 < p \<and> fl = link (rs ! (p - 1))
     \<and> domain_found nl (target_domain a) (link (rs ! (p - 1))) = Inr True
     \<and> (\<forall>i<p - 1. domain_found nl (target_domain a) (link (rs ! i)) = Inr False)"
proof -
  from google_search_matched[OF assms] obtain ps its k base where
    sh: "k < length its" "rs = foldl append_item base (take (Suc k) its)"
      "p = length base + Suc k" "fl = link (its ! k)"
      "domain_found nl (target_domain a) (link (its ! k)) = Inr True"
      "\<forall>j<k. domain_found nl (target_domain a) (link (its ! j)) = Inr False"
      "\<forall>r\<in>set base. domain_found nl (target_domain a) (link r) = Inr False"
    by blast
  have len: "length (take (Suc k) its) = Suc k" using sh(1) by simp
  have p: "p = length rs" using sh(2,3) len by (simp add: length_foldl_append_item)
  have nth: "\<And>i. i < p \<Longrightarrow> link (rs ! i)
      = (if i < length base then link (base ! i) else link (its ! (i - length base)))"
  proof -
    fix i assume "i < p"
    then have i: "i < length base + length (take (Suc k) its)" using sh(3) len by simp
    have "link (rs ! i) = (if i < length base then link (base ! i)
        else link (take (Suc k) its ! (i - length base)))"
      unfolding sh(2) using nth_link_foldl[OF i] .
    moreover have "i - length base < Suc k" using \<open>i < p\<close> sh(3) by simp
    ultimately show "link (rs ! i)
      = (if i < length base then link (base ! i) else link (its ! (i - length base)))"
      by simp
  qed
  have last: "link (rs ! (p - 1)) = link (its ! k)"
    using nth[of "p - 1"] sh(3) by simp
  have before: "\<forall>i<p - 1. domain_found nl (target_domain a) (link (rs ! i)) = Inr False"
  proof (intro allI impI)
    fix i assume i: "i < p - 1"
    show "domain_found nl (target_domain a) (link (rs ! i)) = Inr False"
    proof (cases "i < length base")
      case True
      then have "base ! i \<in> set base" by simp
      then show ?thesis using nth[of i] i True sh(7) by simp
    next
      case False
      then have "i - length base < k" using i sh(3) by simp
      then show ?thesis using nth[of i] i False sh(6) by simp
    qed
  qed
  have "0 < p" using sh(3) by simp
  then show ?thesis using p sh(4,5) last before by simp
qed


section \<open>The returned list ends at the match\<close>



text \<open>
  Claim C10. When the search returns a position, the returned list ends at the matching
  item: its length is the position, its last result carries that position and the
  returned link, and it ends with the items 0 to k of the answer to the last request,
  where k is the index of the matching item; the items after index k of that answer are
  not in the list. The lines written to the file are those of the list, one for each
  result, so the later items are not logged.
\<close>

theorem returned_list_ends_at_match:
  assumes "fst (google_search nl net a) = Returned rs (Some p) fl"
  shows "length rs = p \<and> rs \<noteq> [] \<and> link (last rs) = fl \<and> position (last rs)
      = p
     \<and> (\<exists>ps its k. last (calls (snd (google_search nl net a))) = (ps, Items its)
          \<and> k < length its \<and> Suc k \<le> length rs
          \<and> map item_of (drop (length rs - Suc k) rs) = take (Suc k) its
          \<and> item_of (last rs) = its ! k)
     \<and> (\<forall>fs path d fs'. save_results fs path d rs = (fs', None)
          \<longrightarrow> file_text fs' path = file_text fs path @ concat (map (log_line d) rs))"
proof -
  note m = google_search_matched_last[OF assms]
  have ne: "rs \<noteq> []" using m by auto
  have lastnth: "last rs = rs ! (p - 1)" using ne m by (simp add: last_conv_nth)
  have "rs = results (snd (google_search nl net a))"
    using google_search_returned[OF assms] .
  then have seq: "sequential rs" using sequential_google_search by simp
  have "p - 1 < length rs" and p1: "p - 1 + 1 = p" using m by auto
  then have "position (rs ! (p - 1)) = p - 1 + 1"
    using sequential_nth[OF seq] by blast
  then have pos: "position (last rs) = p" using lastnth p1 by simp
  from google_search_matched[OF assms] obtain ps its k base where
    sh: "last (calls (snd (google_search nl net a))) = (ps, Items its)"
      "k < length its" "rs = foldl append_item base (take (Suc k) its)"
      "p = length base + Suc k"
    by blast
  have map: "map item_of rs = map item_of base @ take (Suc k) its"
    using sh(3) by (simp add: map_item_of_foldl)
  then have "drop (length base) (map item_of rs) = take (Suc k) its" by simp
  then have d: "map item_of (drop (length rs - Suc k) rs) = take (Suc k) its"
    using sh(4) m by (simp add: drop_map)
  have tne: "take (Suc k) its \<noteq> []" using sh(2) by auto
  have "item_of (last rs) = last (map item_of rs)" using ne by (simp add: last_map)
  also have "\<dots> = last (take (Suc k) its)" using map tne by simp
  also have "\<dots> = its ! k" using sh(2) by (simp add: take_Suc_conv_app_nth)
  finally have il: "item_of (last rs) = its ! k" .
  have "\<exists>ps its k. last (calls (snd (google_search nl net a))) = (ps, Items its)
          \<and> k < length its \<and> Suc k \<le> length rs
          \<and> map item_of (drop (length rs - Suc k) rs) = take (Suc k) its
          \<and> item_of (last rs) = its ! k"
    using sh(1,2,4) d il m by (intro exI[of _ ps] exI[of _ its] exI[of _ k]) simp
  moreover have "length rs = p \<and> rs \<noteq> [] \<and> link (last rs) = fl"
    using m ne lastnth by simp
  ultimately show ?thesis using pos save_results_text by blast
qed

theorem returned_list_ends_at_match_witness:
  "fst (google_search ascii_lib two_keys_net imgur_args)
     = Returned (results (snd (google_search ascii_lib two_keys_net imgur_args)))
         (Some 4) (Some ''https://www.imgur.com/upload'')
   \<and> length (results (snd (google_search ascii_lib two_keys_net imgur_args))) = 4
   \<and> item_of (last (results (snd (google_search ascii_lib two_keys_net imgur_args))))
       = imgur_page ! 3
   \<and> length imgur_page = 5
   \<and> snd (save_results plain_fs ''out.txt'' ''2026-11-03''
        (results (snd (google_search ascii_lib two_keys_net imgur_args)))) = None
   \<and> file_text (fst (save_results plain_fs ''out.txt'' ''2026-11-03''
        (results (snd (google_search ascii_lib two_keys_net imgur_args))))) ''out.txt''
       = concat (map (log_line ''2026-11-03'')
           (results (snd (google_search ascii_lib two_keys_net imgur_args))))"
proof -
  have g: "fst (google_search ascii_lib two_keys_net imgur_args)
     = Returned (results (snd (google_search ascii_lib two_keys_net imgur_args)))
         (Some 4) (Some ''https://www.imgur.com/upload'')"
    by code_simp
  have i: "item_of (last (results (snd (google_search ascii_lib two_keys_net imgur_args))))
       = imgur_page ! 3"
    by code_simp
  have n: "length imgur_page = 5" by code_simp
  have "\<not> open_fails plain_fs ''out.txt''" and "room plain_fs ''out.txt'' = None"
    by (simp_all add: plain_fs_def)
  then have s: "snd (save_results plain_fs ''out.txt'' ''2026-11-03''
        (results (snd (google_search ascii_lib two_keys_net imgur_args)))) = None"
    using save_results_unlimited by blast
  then have s': "save_results plain_fs ''out.txt'' ''2026-11-03''
        (results (snd (google_search ascii_lib two_keys_net imgur_args)))
      = (fst (save_results plain_fs ''out.txt'' ''2026-11-03''
        (results (snd (google_search ascii_lib two_keys_net imgur_args)))), None)"
    by (metis prod.collapse)
  have e: "file_text plain_fs ''out.txt'' = []"
    by (simp add: file_text_def plain_fs_def)
  have t: "file_text (fst (save_results plain_fs ''out.txt'' ''2026-11-03''
        (results (snd (google_search ascii_lib two_keys_net imgur_args))))) ''out.txt''
       = file_text plain_fs ''out.txt'' @ concat (map (log_line ''2026-11-03'')
           (results (snd (google_search ascii_lib two_keys_net imgur_args))))"
    using returned_list_ends_at_match[OF g] s' by blast
  show ?thesis
    using returned_list_ends_at_match[OF g] g i n s t e by simp
qed

section \<open>The matching rule\<close>







section \<open>The script body, case by case\<close>


lemma main_mismatch:
  "length API_KEYS \<noteq> length CXS \<Longrightarrow>
     main nl net fs today API_KEYS CXS args
       = \<lparr>run_exit = Exit 1, run_console = [CountMismatchMsg], run_calls = [], run_files =
           fs\<rparr>"
  by (simp add: main_def)

lemma main_raised:
  assumes "length API_KEYS = length CXS"
    and "fst (google_search nl net (call_args API_KEYS CXS args)) = Raised e"
  shows "run_exit (main nl net fs today API_KEYS CXS args) = Uncaught e"
  using assms by (auto simp: main_def Let_def split: prod.splits outcome.splits)

lemma main_returned:
  assumes "length API_KEYS = length CXS"
    and "fst (google_search nl net (call_args API_KEYS CXS args)) = Returned rs pos fl"
  shows "main nl net fs today API_KEYS CXS args =
     (let st = snd (google_search nl net (call_args API_KEYS CXS args));
          printed = SearchingMsg (arg_keyword args) (arg_country args) # console st
                     @ verdict (arg_domain args) (arg_results args) pos fl;
          path = output_file (arg_keyword args) (arg_country args);
          saved = save_results fs path (strftime_Ymd today) rs
      in case snd saved of
           Some e \<Rightarrow> \<lparr>run_exit = Uncaught e, run_console = printed,
                       run_calls = calls st, run_files = fst saved\<rparr>
         | None \<Rightarrow> \<lparr>run_exit = Exit 0, run_console = printed @ [SavedMsg path],
                       run_calls = calls st, run_files = fst saved\<rparr>)"
  using assms
  by (auto simp: main_def Let_def split: prod.splits outcome.splits option.splits)

lemma verdict_not_empty: "verdict target n pos fl \<noteq> []"
  by (simp add: verdict_def split: option.splits)

section \<open>The result sink\<close>

lemma main_saved:
  assumes "length API_KEYS = length CXS"
    and "fst (google_search lib net (call_args API_KEYS CXS args)) = Returned rs pos fl"
    and "\<not> open_fails fs (output_file (arg_keyword args) (arg_country args))"
    and "room fs (output_file (arg_keyword args) (arg_country args)) = None"
  shows "run_exit (main lib net fs today API_KEYS CXS args) = Exit 0
     \<and> run_files (main lib net fs today API_KEYS CXS args)
         = fst (save_results fs (output_file (arg_keyword args) (arg_country args))
                  (strftime_Ymd today) rs)
     \<and> snd (save_results fs (output_file (arg_keyword args) (arg_country args))
                  (strftime_Ymd today) rs) = None"
proof -
  have "snd (save_results fs (output_file (arg_keyword args) (arg_country args))
                  (strftime_Ymd today) rs) = None"
    using save_results_unlimited[OF assms(3,4)] by blast
  then show ?thesis
    using main_returned[OF assms(1,2), of fs today] by (simp add: Let_def)
qed

text \<open>
  Claim C9. The file is named \<^verbatim>\<open>seo_results_\<close>, the keyword with its
  spaces as underscores, \<^verbatim>\<open>_\<close>, the country,
  \<^verbatim>\<open>.txt\<close>. When the file can be opened and written, saving a list of
  results appends one line \<^verbatim>\<open>date|link|position\<close> for each result after
  the text the file had, and saving the same list again appends the same block again (with the
  date of the second run): the file then holds the old text, the first block and the second
  block, and no other file changes. Whether the write succeeds or not, the text the file had
  stays at the front of the file. The script does exactly this with the results of its search: a
  run whose search returns appends the block of the returned results to the file named after its
  keyword and country, touches no other file, and a second run with the same search outcome
  appends the block once more after the first.
\<close>

theorem result_sink_appends:
  assumes "\<not> open_fails fs path" and "room fs path = None"
  shows "(\<exists>fs1 fs2. save_results fs path date_a rs = (fs1, None)
            \<and> save_results fs1 path date_b rs = (fs2, None)
            \<and> file_text fs1 path = file_text fs path @ concat (map (log_line date_a) rs)
            \<and> file_text fs2 path
                = file_text fs path @ concat (map (log_line date_a) rs) @ concat (map (log_line
                    date_b) rs)
            \<and> (\<forall>other. other \<noteq> path \<longrightarrow> files fs2 other = files
                fs other))
     \<and> (\<exists>t. file_text (fst (save_results fs' path' d rs')) path' = file_text fs'
         path' @ t)
     \<and> length (map (log_line d) rs) = length rs
     \<and> output_file keyword ctry
         = ''seo_results_'' @ map (\<lambda>c. if c = CHR '' '' then CHR ''_'' else c) keyword
             @ ''_'' @ ctry @ ''.txt''
     \<and> (length API_KEYS = length CXS
          \<and> fst (google_search lib net (call_args API_KEYS CXS args)) = Returned srs pos fl
          \<and> \<not> open_fails fs_a (output_file (arg_keyword args) (arg_country args))
          \<and> room fs_a (output_file (arg_keyword args) (arg_country args)) = None
        \<longrightarrow> run_exit (main lib net fs_a day_a API_KEYS CXS args) = Exit 0
          \<and> file_text (run_files (main lib net fs_a day_a API_KEYS CXS args))
               (output_file (arg_keyword args) (arg_country args))
              = file_text fs_a (output_file (arg_keyword args) (arg_country args))
                @ concat (map (log_line (strftime_Ymd day_a)) srs)
          \<and> (\<forall>other. other \<noteq> output_file (arg_keyword args) (arg_country args)
                \<longrightarrow> files (run_files (main lib net fs_a day_a API_KEYS CXS args))
                    other
                      = files fs_a other)
          \<and> file_text (run_files (main lib net
                 (run_files (main lib net fs_a day_a API_KEYS CXS args)) day_b API_KEYS CXS args))
               (output_file (arg_keyword args) (arg_country args))
              = file_text fs_a (output_file (arg_keyword args) (arg_country args))
                @ concat (map (log_line (strftime_Ymd day_a)) srs)
                @ concat (map (log_line (strftime_Ymd day_b)) srs))"
proof -
  define fs1 where "fs1 = fst (save_results fs path date_a rs)"
  define fs2 where "fs2 = fst (save_results fs1 path date_b rs)"
  have u1: "snd (save_results fs path date_a rs) = None" "\<not> open_fails fs1 path" "room fs1
      path = None"
    using save_results_unlimited[OF assms, of date_a rs] by (simp_all add: fs1_def)
  have u2: "snd (save_results fs1 path date_b rs) = None"
    using save_results_unlimited[OF u1(2,3), of date_b rs] by simp
  have s1: "save_results fs path date_a rs = (fs1, None)"
    using u1(1) by (simp add: fs1_def prod_eq_iff)
  have s2: "save_results fs1 path date_b rs = (fs2, None)"
    using u2 by (simp add: fs2_def prod_eq_iff)
  have t1: "file_text fs1 path = file_text fs path @ concat (map (log_line date_a) rs)"
    using save_results_text[OF s1] .
  have t2: "file_text fs2 path
      = file_text fs path @ concat (map (log_line date_a) rs) @ concat (map (log_line date_b) rs)"
    using save_results_text[OF s2] t1 by simp
  have o: "\<forall>other. other \<noteq> path \<longrightarrow> files fs2 other = files fs other"
    using save_results_other[of _ path] by (simp add: fs1_def fs2_def)
  have sink: "\<exists>fs1 fs2. save_results fs path date_a rs = (fs1, None)
            \<and> save_results fs1 path date_b rs = (fs2, None)
            \<and> file_text fs1 path = file_text fs path @ concat (map (log_line date_a) rs)
            \<and> file_text fs2 path
                = file_text fs path @ concat (map (log_line date_a) rs) @ concat (map (log_line
                    date_b) rs)
            \<and> (\<forall>other. other \<noteq> path \<longrightarrow> files fs2 other = files
                fs other)"
    using s1 s2 t1 t2 o by blast
  have script: "length API_KEYS = length CXS
          \<and> fst (google_search lib net (call_args API_KEYS CXS args)) = Returned srs pos fl
          \<and> \<not> open_fails fs_a (output_file (arg_keyword args) (arg_country args))
          \<and> room fs_a (output_file (arg_keyword args) (arg_country args)) = None
        \<longrightarrow> run_exit (main lib net fs_a day_a API_KEYS CXS args) = Exit 0
          \<and> file_text (run_files (main lib net fs_a day_a API_KEYS CXS args))
               (output_file (arg_keyword args) (arg_country args))
              = file_text fs_a (output_file (arg_keyword args) (arg_country args))
                @ concat (map (log_line (strftime_Ymd day_a)) srs)
          \<and> (\<forall>other. other \<noteq> output_file (arg_keyword args) (arg_country args)
                \<longrightarrow> files (run_files (main lib net fs_a day_a API_KEYS CXS args))
                    other
                      = files fs_a other)
          \<and> file_text (run_files (main lib net
                 (run_files (main lib net fs_a day_a API_KEYS CXS args)) day_b API_KEYS CXS args))
               (output_file (arg_keyword args) (arg_country args))
              = file_text fs_a (output_file (arg_keyword args) (arg_country args))
                @ concat (map (log_line (strftime_Ymd day_a)) srs)
                @ concat (map (log_line (strftime_Ymd day_b)) srs)"
  proof (intro impI)
    let ?p = "output_file (arg_keyword args) (arg_country args)"
    assume h: "length API_KEYS = length CXS
          \<and> fst (google_search lib net (call_args API_KEYS CXS args)) = Returned srs pos fl
          \<and> \<not> open_fails fs_a ?p \<and> room fs_a ?p = None"
    then have len: "length API_KEYS = length CXS"
      and g: "fst (google_search lib net (call_args API_KEYS CXS args)) = Returned srs pos fl"
      and op: "\<not> open_fails fs_a ?p" and rm: "room fs_a ?p = None"
      by simp_all
    define r1 where "r1 = fst (save_results fs_a ?p (strftime_Ymd day_a) srs)"
    note m1 = main_saved[OF len g op rm, of day_a]
    have f1: "run_files (main lib net fs_a day_a API_KEYS CXS args) = r1"
      using m1 by (simp add: r1_def)
    have sv1: "save_results fs_a ?p (strftime_Ymd day_a) srs = (r1, None)"
      using m1 by (simp add: r1_def prod_eq_iff)
    have x1: "file_text r1 ?p = file_text fs_a ?p @ concat (map (log_line (strftime_Ymd day_a))
        srs)"
      using save_results_text[OF sv1] .
    have o1: "\<forall>other. other \<noteq> ?p \<longrightarrow> files r1 other = files fs_a other"
      using save_results_other[of _ ?p fs_a "strftime_Ymd day_a" srs] by (simp add: r1_def)
    have again: "\<not> open_fails r1 ?p" "room r1 ?p = None"
      using save_results_unlimited[OF op rm, of "strftime_Ymd day_a" srs] by (simp_all add: r1_def)
    define r2 where "r2 = fst (save_results r1 ?p (strftime_Ymd day_b) srs)"
    note m2 = main_saved[OF len g again, of day_b]
    have f2: "run_files (main lib net r1 day_b API_KEYS CXS args) = r2"
      using m2 by (simp add: r2_def)
    have sv2: "save_results r1 ?p (strftime_Ymd day_b) srs = (r2, None)"
      using m2 by (simp add: r2_def prod_eq_iff)
    have x2: "file_text r2 ?p = file_text fs_a ?p
        @ concat (map (log_line (strftime_Ymd day_a)) srs)
        @ concat (map (log_line (strftime_Ymd day_b)) srs)"
      using save_results_text[OF sv2] x1 by simp
    show "run_exit (main lib net fs_a day_a API_KEYS CXS args) = Exit 0
          \<and> file_text (run_files (main lib net fs_a day_a API_KEYS CXS args)) ?p
              = file_text fs_a ?p @ concat (map (log_line (strftime_Ymd day_a)) srs)
          \<and> (\<forall>other. other \<noteq> ?p
                \<longrightarrow> files (run_files (main lib net fs_a day_a API_KEYS CXS args))
                    other
                      = files fs_a other)
          \<and> file_text (run_files (main lib net
                 (run_files (main lib net fs_a day_a API_KEYS CXS args)) day_b API_KEYS CXS args))
                     ?p
              = file_text fs_a ?p
                @ concat (map (log_line (strftime_Ymd day_a)) srs)
                @ concat (map (log_line (strftime_Ymd day_b)) srs)"
      unfolding f1 f2 using m1 x1 o1 x2 by simp
  qed
  show ?thesis
    using sink script save_results_grows[of fs' path' d rs'] by (simp add: output_file_def)
qed


theorem result_sink_appends_witness:
  "\<not> open_fails logged_fs (output_file ''free image hosting'' ''us'')
   \<and> room logged_fs (output_file ''free image hosting'' ''us'') = None
   \<and> output_file ''free image hosting'' ''us'' = ''seo_results_free_image_hosting_us.txt''
   \<and> file_text logged_fs ''seo_results_free_image_hosting_us.txt'' =
       ''2026-11-02|https://postimages.org/|1'' @ [CHR 0x0A]
   \<and> file_text (fst (save_results
         (fst (save_results logged_fs ''seo_results_free_image_hosting_us.txt'' ''2026-11-03''
             two_results))
         ''seo_results_free_image_hosting_us.txt'' ''2026-11-03'' two_results))
       ''seo_results_free_image_hosting_us.txt''
      = ''2026-11-02|https://postimages.org/|1'' @ [CHR 0x0A]
        @ ''2026-11-03|https://postimages.org/|1'' @ [CHR 0x0A]
        @ ''2026-11-03|https://imgbb.com/upload|2'' @ [CHR 0x0A]
        @ ''2026-11-03|https://postimages.org/|1'' @ [CHR 0x0A]
        @ ''2026-11-03|https://imgbb.com/upload|2'' @ [CHR 0x0A]
   \<and> length [''KEY-A'', ''KEY-B''] = length [''CX-A'', ''CX-B'']
   \<and> fst (google_search ascii_lib two_keys_net (call_args [''KEY-A'', ''KEY-B''] [''CX-A'',
       ''CX-B''] imgur_cli))
      = Returned (results (snd (google_search ascii_lib two_keys_net (call_args [''KEY-A'',
          ''KEY-B''] [''CX-A'', ''CX-B''] imgur_cli))))
          (Some 4) (Some ''https://www.imgur.com/upload'')
   \<and> output_file (arg_keyword imgur_cli) (arg_country imgur_cli) =
       ''seo_results_free_image_hosting_us.txt''
   \<and> run_exit (main ascii_lib two_keys_net logged_fs nov3 [''KEY-A'', ''KEY-B''] [''CX-A'',
       ''CX-B''] imgur_cli) = Exit 0
   \<and> file_text (run_files (main ascii_lib two_keys_net logged_fs nov3 [''KEY-A'', ''KEY-B'']
       [''CX-A'', ''CX-B''] imgur_cli))
       ''seo_results_free_image_hosting_us.txt''
      = ''2026-11-02|https://postimages.org/|1'' @ [CHR 0x0A]
        @ ''2026-11-03|https://postimages.org/|1'' @ [CHR 0x0A]
        @ ''2026-11-03|https://imgbb.com/upload|2'' @ [CHR 0x0A]
        @ ''2026-11-03|https://www.example.org/imgur.com-review|3'' @ [CHR 0x0A]
        @ ''2026-11-03|https://www.imgur.com/upload|4'' @ [CHR 0x0A]
   \<and> file_text (run_files (main ascii_lib two_keys_net (run_files (main ascii_lib
       two_keys_net logged_fs nov3 [''KEY-A'', ''KEY-B''] [''CX-A'', ''CX-B''] imgur_cli)) nov3
       [''KEY-A'', ''KEY-B''] [''CX-A'', ''CX-B''] imgur_cli))
       ''seo_results_free_image_hosting_us.txt''
      = ''2026-11-02|https://postimages.org/|1'' @ [CHR 0x0A]
        @ ''2026-11-03|https://postimages.org/|1'' @ [CHR 0x0A]
        @ ''2026-11-03|https://imgbb.com/upload|2'' @ [CHR 0x0A]
        @ ''2026-11-03|https://www.example.org/imgur.com-review|3'' @ [CHR 0x0A]
        @ ''2026-11-03|https://www.imgur.com/upload|4'' @ [CHR 0x0A]
        @ ''2026-11-03|https://postimages.org/|1'' @ [CHR 0x0A]
        @ ''2026-11-03|https://imgbb.com/upload|2'' @ [CHR 0x0A]
        @ ''2026-11-03|https://www.example.org/imgur.com-review|3'' @ [CHR 0x0A]
        @ ''2026-11-03|https://www.imgur.com/upload|4'' @ [CHR 0x0A]"
proof -
  have n: "output_file ''free image hosting'' ''us'' = ''seo_results_free_image_hosting_us.txt''"
    by code_simp
  have n': "output_file (arg_keyword imgur_cli) (arg_country imgur_cli) =
      ''seo_results_free_image_hosting_us.txt''"
    by code_simp
  have a: "\<not> open_fails logged_fs ''seo_results_free_image_hosting_us.txt''"
    and b: "room logged_fs ''seo_results_free_image_hosting_us.txt'' = None"
    by (simp_all add: logged_fs_def)
  have old: "file_text logged_fs ''seo_results_free_image_hosting_us.txt'' =
      ''2026-11-02|https://postimages.org/|1'' @ [CHR 0x0A]"
    by (simp add: logged_fs_def file_text_def)
  have block: "concat (map (log_line ''2026-11-03'') two_results)
      = ''2026-11-03|https://postimages.org/|1'' @ [CHR 0x0A]
        @ ''2026-11-03|https://imgbb.com/upload|2'' @ [CHR 0x0A]"
    by code_simp
  have l: "length [''KEY-A'', ''KEY-B''] = length [''CX-A'', ''CX-B'']" by simp
  have g: "fst (google_search ascii_lib two_keys_net (call_args [''KEY-A'', ''KEY-B''] [''CX-A'',
      ''CX-B''] imgur_cli))
      = Returned (results (snd (google_search ascii_lib two_keys_net (call_args [''KEY-A'',
          ''KEY-B''] [''CX-A'', ''CX-B''] imgur_cli))))
          (Some 4) (Some ''https://www.imgur.com/upload'')"
    by code_simp
  have block4: "concat (map (log_line (strftime_Ymd nov3))
        (results (snd (google_search ascii_lib two_keys_net (call_args [''KEY-A'', ''KEY-B'']
            [''CX-A'', ''CX-B''] imgur_cli)))))
      = ''2026-11-03|https://postimages.org/|1'' @ [CHR 0x0A]
        @ ''2026-11-03|https://imgbb.com/upload|2'' @ [CHR 0x0A]
        @ ''2026-11-03|https://www.example.org/imgur.com-review|3'' @ [CHR 0x0A]
        @ ''2026-11-03|https://www.imgur.com/upload|4'' @ [CHR 0x0A]"
    by code_simp
  note t = result_sink_appends[OF a b, where date_a = "''2026-11-03''" and date_b = "''2026-11-03''"
      and rs = two_results and API_KEYS = "[''KEY-A'', ''KEY-B'']" and CXS = "[''CX-A'', ''CX-B'']"
      and lib = ascii_lib and net = two_keys_net and args = imgur_cli and fs_a = logged_fs
      and day_a = nov3 and day_b = nov3
      and srs = "results (snd (google_search ascii_lib two_keys_net (call_args [''KEY-A'',
          ''KEY-B''] [''CX-A'', ''CX-B''] imgur_cli)))"
      and pos = "Some 4" and fl = "Some ''https://www.imgur.com/upload''"]
  from t obtain fs1 fs2 where
    "save_results logged_fs ''seo_results_free_image_hosting_us.txt'' ''2026-11-03'' two_results =
        (fs1, None)"
    "save_results fs1 ''seo_results_free_image_hosting_us.txt'' ''2026-11-03'' two_results = (fs2,
        None)"
    "file_text fs2 ''seo_results_free_image_hosting_us.txt''
       = file_text logged_fs ''seo_results_free_image_hosting_us.txt''
         @ concat (map (log_line ''2026-11-03'') two_results)
         @ concat (map (log_line ''2026-11-03'') two_results)"
    by blast
  then have sink: "file_text (fst (save_results
         (fst (save_results logged_fs ''seo_results_free_image_hosting_us.txt'' ''2026-11-03''
             two_results))
         ''seo_results_free_image_hosting_us.txt'' ''2026-11-03'' two_results))
       ''seo_results_free_image_hosting_us.txt''
       = file_text logged_fs ''seo_results_free_image_hosting_us.txt''
         @ concat (map (log_line ''2026-11-03'') two_results)
         @ concat (map (log_line ''2026-11-03'') two_results)"
    by simp
  have hyp: "length [''KEY-A'', ''KEY-B''] = length [''CX-A'', ''CX-B'']
      \<and> fst (google_search ascii_lib two_keys_net (call_args [''KEY-A'', ''KEY-B'']
          [''CX-A'', ''CX-B''] imgur_cli)) = Returned (results (snd (google_search ascii_lib
          two_keys_net (call_args [''KEY-A'', ''KEY-B''] [''CX-A'', ''CX-B''] imgur_cli)))) (Some
          4) (Some ''https://www.imgur.com/upload'')
      \<and> \<not> open_fails logged_fs (output_file (arg_keyword imgur_cli) (arg_country
          imgur_cli))
      \<and> room logged_fs (output_file (arg_keyword imgur_cli) (arg_country imgur_cli)) = None"
    using l g a b unfolding n' by blast
  have script: "run_exit (main ascii_lib two_keys_net logged_fs nov3 [''KEY-A'', ''KEY-B'']
      [''CX-A'', ''CX-B''] imgur_cli) = Exit 0"
    "file_text (run_files (main ascii_lib two_keys_net logged_fs nov3 [''KEY-A'', ''KEY-B'']
        [''CX-A'', ''CX-B''] imgur_cli)) (output_file (arg_keyword imgur_cli) (arg_country
        imgur_cli))
      = file_text logged_fs (output_file (arg_keyword imgur_cli) (arg_country imgur_cli))
        @ concat (map (log_line (strftime_Ymd nov3)) (results (snd (google_search ascii_lib
            two_keys_net (call_args [''KEY-A'', ''KEY-B''] [''CX-A'', ''CX-B''] imgur_cli)))))"
    "file_text (run_files (main ascii_lib two_keys_net (run_files (main ascii_lib two_keys_net
        logged_fs nov3 [''KEY-A'', ''KEY-B''] [''CX-A'', ''CX-B''] imgur_cli)) nov3 [''KEY-A'',
        ''KEY-B''] [''CX-A'', ''CX-B''] imgur_cli)) (output_file (arg_keyword imgur_cli)
        (arg_country imgur_cli))
      = file_text logged_fs (output_file (arg_keyword imgur_cli) (arg_country imgur_cli))
        @ concat (map (log_line (strftime_Ymd nov3)) (results (snd (google_search ascii_lib
            two_keys_net (call_args [''KEY-A'', ''KEY-B''] [''CX-A'', ''CX-B''] imgur_cli)))))
        @ concat (map (log_line (strftime_Ymd nov3)) (results (snd (google_search ascii_lib
            two_keys_net (call_args [''KEY-A'', ''KEY-B''] [''CX-A'', ''CX-B''] imgur_cli)))))"
    using t hyp by blast+
  show ?thesis
    using n a b old l g sink script unfolding n' block block4 by simp
qed

section \<open>The credential check and the exit code\<close>


text \<open>
  Claim C3, as amended. When the two lists have different lengths, the script prints the
  configuration error and exits with code 1; no request is sent and no file is touched.
  When they have the same length, the exit code is 0 exactly when the search returns and
  the results are saved without an exception, whatever the position returned; so it is 0
  whenever the search returns and the output file can be opened and written.
\<close>

theorem credential_count_check:
  "(length API_KEYS \<noteq> length CXS \<longrightarrow>
      run_exit (main nl net fs today API_KEYS CXS args) = Exit 1
      \<and> exit_code (run_exit (main nl net fs today API_KEYS CXS args)) = 1
      \<and> run_console (main nl net fs today API_KEYS CXS args) = [CountMismatchMsg]
      \<and> run_calls (main nl net fs today API_KEYS CXS args) = []
      \<and> run_files (main nl net fs today API_KEYS CXS args) = fs)
   \<and> (length API_KEYS = length CXS \<longrightarrow>
      (exit_code (run_exit (main nl net fs today API_KEYS CXS args)) = 0)
        = (\<exists>rs pos fl. fst (google_search nl net (call_args API_KEYS CXS args)) = Returned
            rs pos fl
             \<and> snd (save_results fs (output_file (arg_keyword args) (arg_country args))
                       (strftime_Ymd today) rs) = None))
   \<and> (length API_KEYS = length CXS
        \<and> fst (google_search nl net (call_args API_KEYS CXS args)) = Returned rs pos fl
        \<and> \<not> open_fails fs (output_file (arg_keyword args) (arg_country args))
        \<and> room fs (output_file (arg_keyword args) (arg_country args)) = None
      \<longrightarrow> run_exit (main nl net fs today API_KEYS CXS args) = Exit 0)"
proof (intro conjI impI)
  assume "length API_KEYS \<noteq> length CXS"
  then have m: "main nl net fs today API_KEYS CXS args
       = \<lparr>run_exit = Exit 1, run_console = [CountMismatchMsg], run_calls = [], run_files =
           fs\<rparr>"
    by (rule main_mismatch)
  show "run_exit (main nl net fs today API_KEYS CXS args) = Exit 1"
    and "exit_code (run_exit (main nl net fs today API_KEYS CXS args)) = 1"
    and "run_console (main nl net fs today API_KEYS CXS args) = [CountMismatchMsg]"
    and "run_calls (main nl net fs today API_KEYS CXS args) = []"
    and "run_files (main nl net fs today API_KEYS CXS args) = fs"
    by (simp_all add: m exit_code_def)
next
  assume eq: "length API_KEYS = length CXS"
  show "(exit_code (run_exit (main nl net fs today API_KEYS CXS args)) = 0)
        = (\<exists>rs pos fl. fst (google_search nl net (call_args API_KEYS CXS args)) = Returned
            rs pos fl
             \<and> snd (save_results fs (output_file (arg_keyword args) (arg_country args))
                       (strftime_Ymd today) rs) = None)"
  proof (cases "fst (google_search nl net (call_args API_KEYS CXS args))")
    case (Raised e)
    then show ?thesis using main_raised[OF eq Raised, of fs today]
      by (simp add: exit_code_def)
  next
    case (Returned rs pos fl)
    show ?thesis
      using Returned main_returned[OF eq Returned, of fs today]
      by (auto simp: Let_def exit_code_def split: option.splits)
  qed
next
  assume h: "length API_KEYS = length CXS
        \<and> fst (google_search nl net (call_args API_KEYS CXS args)) = Returned rs pos fl
        \<and> \<not> open_fails fs (output_file (arg_keyword args) (arg_country args))
        \<and> room fs (output_file (arg_keyword args) (arg_country args)) = None"
  then have "snd (save_results fs (output_file (arg_keyword args) (arg_country args))
                       (strftime_Ymd today) rs) = None"
    using save_results_unlimited by blast
  then show "run_exit (main nl net fs today API_KEYS CXS args) = Exit 0"
    using h main_returned[of API_KEYS CXS nl net args rs pos fl fs today]
    by (simp add: Let_def)
qed

theorem credential_count_check_witness:
  "length [''KEY-A'', ''KEY-B''] \<noteq> length [''CX-A'']
   \<and> run_exit (main ascii_lib two_keys_net plain_fs nov3 [''KEY-A'', ''KEY-B''] [''CX-A'']
       imgur_cli)
       = Exit 1
   \<and> run_calls (main ascii_lib two_keys_net plain_fs nov3 [''KEY-A'', ''KEY-B''] [''CX-A'']
       imgur_cli)
       = []
   \<and> length [''KEY-A'', ''KEY-B''] = length [''CX-A'', ''CX-B'']
   \<and> fst (google_search ascii_lib two_keys_net
        (call_args [''KEY-A'', ''KEY-B''] [''CX-A'', ''CX-B''] imgur_cli))
       = Returned (results (snd (google_search ascii_lib two_keys_net
           (call_args [''KEY-A'', ''KEY-B''] [''CX-A'', ''CX-B''] imgur_cli))))
          (Some 4) (Some ''https://www.imgur.com/upload'')
   \<and> \<not> open_fails plain_fs (output_file (arg_keyword imgur_cli) (arg_country imgur_cli))
   \<and> room plain_fs (output_file (arg_keyword imgur_cli) (arg_country imgur_cli)) = None
   \<and> run_exit (main ascii_lib two_keys_net plain_fs nov3 [''KEY-A'', ''KEY-B'']
        [''CX-A'', ''CX-B''] imgur_cli) = Exit 0
   \<and> exit_code (run_exit (main ascii_lib two_keys_net plain_fs nov3 [''KEY-A'', ''KEY-B'']
        [''CX-A'', ''CX-B''] imgur_cli)) = 0
   \<and> fst (google_search ascii_lib two_keys_net
        (call_args [''KEY-A'', ''KEY-B''] [''CX-A'', ''CX-B''] nowhere_cli))
       = Returned (results (snd (google_search ascii_lib two_keys_net
           (call_args [''KEY-A'', ''KEY-B''] [''CX-A'', ''CX-B''] nowhere_cli)))) None None
   \<and> run_exit (main ascii_lib two_keys_net plain_fs nov3 [''KEY-A'', ''KEY-B'']
        [''CX-A'', ''CX-B''] nowhere_cli) = Exit 0"
proof -
  have l1: "length [''KEY-A'', ''KEY-B''] \<noteq> length [''CX-A'']" by simp
  have l2: "length [''KEY-A'', ''KEY-B''] = length [''CX-A'', ''CX-B'']" by simp
  have g1: "fst (google_search ascii_lib two_keys_net
        (call_args [''KEY-A'', ''KEY-B''] [''CX-A'', ''CX-B''] imgur_cli))
       = Returned (results (snd (google_search ascii_lib two_keys_net
           (call_args [''KEY-A'', ''KEY-B''] [''CX-A'', ''CX-B''] imgur_cli))))
          (Some 4) (Some ''https://www.imgur.com/upload'')"
    by code_simp
  have g2: "fst (google_search ascii_lib two_keys_net
        (call_args [''KEY-A'', ''KEY-B''] [''CX-A'', ''CX-B''] nowhere_cli))
       = Returned (results (snd (google_search ascii_lib two_keys_net
           (call_args [''KEY-A'', ''KEY-B''] [''CX-A'', ''CX-B''] nowhere_cli)))) None None"
    by code_simp
  have o: "\<And>p. \<not> open_fails plain_fs p" and r: "\<And>p. room plain_fs p = None"
    by (simp_all add: plain_fs_def)
  have w1: "run_exit (main ascii_lib two_keys_net plain_fs nov3 [''KEY-A'', ''KEY-B''] [''CX-A'']
      imgur_cli)
       = Exit 1"
    and w2: "run_calls (main ascii_lib two_keys_net plain_fs nov3 [''KEY-A'', ''KEY-B'']
        [''CX-A''] imgur_cli)
       = []"
    using credential_count_check[of "[''KEY-A'', ''KEY-B'']" "[''CX-A'']" ascii_lib two_keys_net
        plain_fs nov3 imgur_cli] l1 by simp_all
  have w3: "run_exit (main ascii_lib two_keys_net plain_fs nov3 [''KEY-A'', ''KEY-B'']
        [''CX-A'', ''CX-B''] imgur_cli) = Exit 0"
    using credential_count_check[of "[''KEY-A'', ''KEY-B'']" "[''CX-A'', ''CX-B'']" ascii_lib
        two_keys_net plain_fs nov3 imgur_cli] l2 g1 o r by blast
  have w4: "run_exit (main ascii_lib two_keys_net plain_fs nov3 [''KEY-A'', ''KEY-B'']
        [''CX-A'', ''CX-B''] nowhere_cli) = Exit 0"
    using credential_count_check[of "[''KEY-A'', ''KEY-B'']" "[''CX-A'', ''CX-B'']" ascii_lib
        two_keys_net plain_fs nov3 nowhere_cli] l2 g2 o r by blast
  show ?thesis
    using l1 l2 g1 g2 o r w1 w2 w3 w4 by (simp add: exit_code_def)
qed

text \<open>
  The claim as it was written fails when the output file cannot be opened: the lists have
  the same length, the search returns (without a match), and the exit status is 1.
\<close>

theorem equal_lengths_exit_counterexample:
  "length [''KEY-A'', ''KEY-B''] = length [''CX-A'', ''CX-B'']
   \<and> run_exit (main ascii_lib two_keys_net locked_fs nov3 [''KEY-A'', ''KEY-B'']
        [''CX-A'', ''CX-B''] nowhere_cli) = Uncaught OSError
   \<and> exit_code (run_exit (main ascii_lib two_keys_net locked_fs nov3 [''KEY-A'', ''KEY-B'']
        [''CX-A'', ''CX-B''] nowhere_cli)) = 1
   \<and> run_console (main ascii_lib two_keys_net locked_fs nov3 [''KEY-A'', ''KEY-B'']
        [''CX-A'', ''CX-B''] nowhere_cli)
       = [SearchingMsg ''free image hosting'' ''us'', QuotaExceededMsg ''KEY-A'',
          QuotaExceededMsg ''KEY-A'', NoResultsMsg ''KEY-B'', AllKeysFailedMsg,
          NotFoundMsg ''nowhere.net'' 20]"
  by code_simp

section \<open>A result file that cannot be saved\<close>


text \<open>
  Claim C8, as amended. Take a run in which the lists have the same length and the search
  returns. The verdict is printed in every case, before the file is opened: the position
  and the link when a position was returned, the not-found message otherwise. When opening
  or writing the output file fails, nothing catches the OSError: the run ends with it, the
  exit status is 1 and not 0, the verdict is the last line printed, and the text the file
  had is still at its front. When the file is saved, the exit status is 0 and the line
  that names the file follows the verdict.
\<close>

theorem sink_failure:
  assumes "length API_KEYS = length CXS"
    and "fst (google_search nl net (call_args API_KEYS CXS args)) = Returned rs pos fl"
  shows "(snd (save_results fs (output_file (arg_keyword args) (arg_country args))
              (strftime_Ymd today) rs) \<noteq> None \<longrightarrow>
            run_exit (main nl net fs today API_KEYS CXS args) = Uncaught OSError
            \<and> exit_code (run_exit (main nl net fs today API_KEYS CXS args)) = 1
            \<and> run_console (main nl net fs today API_KEYS CXS args)
                = SearchingMsg (arg_keyword args) (arg_country args)
                    # console (snd (google_search nl net (call_args API_KEYS CXS args)))
                    @ verdict (arg_domain args) (arg_results args) pos fl
            \<and> (\<exists>t. file_text (run_files (main nl net fs today API_KEYS CXS args))
                       (output_file (arg_keyword args) (arg_country args))
                     = file_text fs (output_file (arg_keyword args) (arg_country args)) @ t))
     \<and> (snd (save_results fs (output_file (arg_keyword args) (arg_country args))
              (strftime_Ymd today) rs) = None \<longrightarrow>
            exit_code (run_exit (main nl net fs today API_KEYS CXS args)) = 0
            \<and> run_console (main nl net fs today API_KEYS CXS args)
                = SearchingMsg (arg_keyword args) (arg_country args)
                    # console (snd (google_search nl net (call_args API_KEYS CXS args)))
                    @ verdict (arg_domain args) (arg_results args) pos fl
                    @ [SavedMsg (output_file (arg_keyword args) (arg_country args))])
     \<and> (open_fails fs (output_file (arg_keyword args) (arg_country args)) \<longrightarrow>
            snd (save_results fs (output_file (arg_keyword args) (arg_country args))
              (strftime_Ymd today) rs) \<noteq> None
            \<and> run_files (main nl net fs today API_KEYS CXS args) = fs)
     \<and> (pos = None \<longrightarrow>
            verdict (arg_domain args) (arg_results args) pos fl
              = [NotFoundMsg (arg_domain args) (arg_results args)])
     \<and> (\<forall>p. pos = Some p \<longrightarrow>
            verdict (arg_domain args) (arg_results args) pos fl
              = [FoundMsg (arg_domain args) p, FoundLinkMsg fl])"
proof -
  let ?path = "output_file (arg_keyword args) (arg_country args)"
  let ?saved = "save_results fs ?path (strftime_Ymd today) rs"
  note m = main_returned[OF assms, of fs today]
  have a: "snd ?saved \<noteq> None \<longrightarrow>
            run_exit (main nl net fs today API_KEYS CXS args) = Uncaught OSError
            \<and> exit_code (run_exit (main nl net fs today API_KEYS CXS args)) = 1
            \<and> run_console (main nl net fs today API_KEYS CXS args)
                = SearchingMsg (arg_keyword args) (arg_country args)
                    # console (snd (google_search nl net (call_args API_KEYS CXS args)))
                    @ verdict (arg_domain args) (arg_results args) pos fl
            \<and> (\<exists>t. file_text (run_files (main nl net fs today API_KEYS CXS args)) ?path
                     = file_text fs ?path @ t)"
  proof
    assume "snd ?saved \<noteq> None"
    then obtain e where e: "snd ?saved = Some e" by blast
    then have "e = OSError" by (rule save_results_error)
    then show "run_exit (main nl net fs today API_KEYS CXS args) = Uncaught OSError
            \<and> exit_code (run_exit (main nl net fs today API_KEYS CXS args)) = 1
            \<and> run_console (main nl net fs today API_KEYS CXS args)
                = SearchingMsg (arg_keyword args) (arg_country args)
                    # console (snd (google_search nl net (call_args API_KEYS CXS args)))
                    @ verdict (arg_domain args) (arg_results args) pos fl
            \<and> (\<exists>t. file_text (run_files (main nl net fs today API_KEYS CXS args)) ?path
                     = file_text fs ?path @ t)"
      using m e save_results_grows[of fs ?path "strftime_Ymd today" rs]
      by (simp add: Let_def exit_code_def)
  qed
  have b: "snd ?saved = None \<longrightarrow>
            exit_code (run_exit (main nl net fs today API_KEYS CXS args)) = 0
            \<and> run_console (main nl net fs today API_KEYS CXS args)
                = SearchingMsg (arg_keyword args) (arg_country args)
                    # console (snd (google_search nl net (call_args API_KEYS CXS args)))
                    @ verdict (arg_domain args) (arg_results args) pos fl
                    @ [SavedMsg ?path]"
    using m by (simp add: Let_def exit_code_def)
  have c: "open_fails fs ?path \<longrightarrow>
            snd ?saved \<noteq> None \<and> run_files (main nl net fs today API_KEYS CXS args) = fs"
    using m by (simp add: Let_def save_results_def)
  have d: "pos = None \<longrightarrow>
            verdict (arg_domain args) (arg_results args) pos fl
              = [NotFoundMsg (arg_domain args) (arg_results args)]"
    by (simp add: verdict_def)
  have e: "\<forall>p. pos = Some p \<longrightarrow>
            verdict (arg_domain args) (arg_results args) pos fl
              = [FoundMsg (arg_domain args) p, FoundLinkMsg fl]"
  proof (intro allI impI)
    fix p assume p: "pos = Some p"
    have "0 < p" using google_search_matched_last[OF assms(2)[unfolded p]] by blast
    then show "verdict (arg_domain args) (arg_results args) pos fl
              = [FoundMsg (arg_domain args) p, FoundLinkMsg fl]"
      using p by (simp add: verdict_def)
  qed
  show ?thesis using a b c d e by blast
qed

theorem sink_failure_witness:
  "length [''KEY-A'', ''KEY-B''] = length [''CX-A'', ''CX-B'']
   \<and> fst (google_search ascii_lib two_keys_net (call_args [''KEY-A'', ''KEY-B''] [''CX-A'',
       ''CX-B''] imgur_cli)) = Returned (results (snd (google_search ascii_lib two_keys_net
       (call_args [''KEY-A'', ''KEY-B''] [''CX-A'', ''CX-B''] imgur_cli)))) (Some 4) (Some
       ''https://www.imgur.com/upload'')
   \<and> open_fails locked_fs (output_file (arg_keyword imgur_cli) (arg_country imgur_cli))
   \<and> snd (save_results locked_fs (output_file (arg_keyword imgur_cli) (arg_country
       imgur_cli)) (strftime_Ymd nov3) (results (snd (google_search ascii_lib two_keys_net
       (call_args [''KEY-A'', ''KEY-B''] [''CX-A'', ''CX-B''] imgur_cli))))) \<noteq> None
   \<and> run_exit (main ascii_lib two_keys_net locked_fs nov3 [''KEY-A'', ''KEY-B''] [''CX-A'',
       ''CX-B''] imgur_cli) = Uncaught OSError
   \<and> exit_code (run_exit (main ascii_lib two_keys_net locked_fs nov3 [''KEY-A'', ''KEY-B'']
       [''CX-A'', ''CX-B''] imgur_cli)) = 1
   \<and> run_files (main ascii_lib two_keys_net locked_fs nov3 [''KEY-A'', ''KEY-B''] [''CX-A'',
       ''CX-B''] imgur_cli) = locked_fs
   \<and> snd (save_results full_fs (output_file (arg_keyword imgur_cli) (arg_country imgur_cli))
       (strftime_Ymd nov3) (results (snd (google_search ascii_lib two_keys_net (call_args
       [''KEY-A'', ''KEY-B''] [''CX-A'', ''CX-B''] imgur_cli))))) \<noteq> None
   \<and> exit_code (run_exit (main ascii_lib two_keys_net full_fs nov3 [''KEY-A'', ''KEY-B'']
       [''CX-A'', ''CX-B''] imgur_cli)) = 1
   \<and> file_text (run_files (main ascii_lib two_keys_net full_fs nov3 [''KEY-A'', ''KEY-B'']
       [''CX-A'', ''CX-B''] imgur_cli)) (output_file (arg_keyword imgur_cli) (arg_country
       imgur_cli)) = ''2026-11-03''
   \<and> snd (save_results plain_fs (output_file (arg_keyword imgur_cli) (arg_country imgur_cli))
       (strftime_Ymd nov3) (results (snd (google_search ascii_lib two_keys_net (call_args
       [''KEY-A'', ''KEY-B''] [''CX-A'', ''CX-B''] imgur_cli))))) = None
   \<and> exit_code (run_exit (main ascii_lib two_keys_net plain_fs nov3 [''KEY-A'', ''KEY-B'']
       [''CX-A'', ''CX-B''] imgur_cli)) = 0
   \<and> verdict (arg_domain imgur_cli) (arg_results imgur_cli) (Some 4) (Some
       ''https://www.imgur.com/upload'') = [FoundMsg ''imgur.com'' 4, FoundLinkMsg (Some
       ''https://www.imgur.com/upload'')]"
proof -
  have l: "length [''KEY-A'', ''KEY-B''] = length [''CX-A'', ''CX-B'']"
    by simp
  have g: "fst (google_search ascii_lib two_keys_net (call_args [''KEY-A'', ''KEY-B''] [''CX-A'',
      ''CX-B''] imgur_cli)) = Returned (results (snd (google_search ascii_lib two_keys_net
      (call_args [''KEY-A'', ''KEY-B''] [''CX-A'', ''CX-B''] imgur_cli)))) (Some 4) (Some
      ''https://www.imgur.com/upload'')"
    by code_simp
  have o: "open_fails locked_fs (output_file (arg_keyword imgur_cli) (arg_country imgur_cli))"
    by (simp add: locked_fs_def)
  have s1: "snd (save_results locked_fs (output_file (arg_keyword imgur_cli) (arg_country
      imgur_cli)) (strftime_Ymd nov3) (results (snd (google_search ascii_lib two_keys_net
      (call_args [''KEY-A'', ''KEY-B''] [''CX-A'', ''CX-B''] imgur_cli))))) \<noteq> None"
    by (simp add: save_results_def locked_fs_def)
  have s2: "snd (save_results full_fs (output_file (arg_keyword imgur_cli) (arg_country
      imgur_cli)) (strftime_Ymd nov3) (results (snd (google_search ascii_lib two_keys_net
      (call_args [''KEY-A'', ''KEY-B''] [''CX-A'', ''CX-B''] imgur_cli))))) \<noteq> None"
    by code_simp
  have s3: "snd (save_results plain_fs (output_file (arg_keyword imgur_cli) (arg_country
      imgur_cli)) (strftime_Ymd nov3) (results (snd (google_search ascii_lib two_keys_net
      (call_args [''KEY-A'', ''KEY-B''] [''CX-A'', ''CX-B''] imgur_cli))))) = None"
    by code_simp
  have t2: "file_text (run_files (main ascii_lib two_keys_net full_fs nov3 [''KEY-A'', ''KEY-B'']
      [''CX-A'', ''CX-B''] imgur_cli)) (output_file (arg_keyword imgur_cli) (arg_country
      imgur_cli)) = ''2026-11-03''"
    by code_simp
  note t = sink_failure[OF l g]
  have a: "run_exit (main ascii_lib two_keys_net locked_fs nov3 [''KEY-A'', ''KEY-B''] [''CX-A'',
      ''CX-B''] imgur_cli) = Uncaught OSError"
    and b: "exit_code (run_exit (main ascii_lib two_keys_net locked_fs nov3 [''KEY-A'', ''KEY-B'']
        [''CX-A'', ''CX-B''] imgur_cli)) = 1"
    using t[of locked_fs nov3] s1 by blast+
  have c: "run_files (main ascii_lib two_keys_net locked_fs nov3 [''KEY-A'', ''KEY-B''] [''CX-A'',
      ''CX-B''] imgur_cli) = locked_fs"
    using t[of locked_fs nov3] o by blast
  have d: "exit_code (run_exit (main ascii_lib two_keys_net full_fs nov3 [''KEY-A'', ''KEY-B'']
      [''CX-A'', ''CX-B''] imgur_cli)) = 1"
    using t[of full_fs nov3] s2 by blast
  have e: "exit_code (run_exit (main ascii_lib two_keys_net plain_fs nov3 [''KEY-A'', ''KEY-B'']
      [''CX-A'', ''CX-B''] imgur_cli)) = 0"
    using t[of plain_fs nov3] s3 by blast
  have v: "verdict (arg_domain imgur_cli) (arg_results imgur_cli) (Some 4) (Some
      ''https://www.imgur.com/upload'') = [FoundMsg ''imgur.com'' 4, FoundLinkMsg (Some
      ''https://www.imgur.com/upload'')]"
    by code_simp
  show ?thesis
    using l g o s1 s2 s3 t2 a b c d e v by simp
qed

text \<open>
  The claim as it was written fails: with the same keys, network and arguments, the exit
  status is 0 when the file is saved and 1 when the file cannot be opened.
\<close>

theorem sink_failure_exit_counterexample:
  "exit_code (run_exit (main ascii_lib two_keys_net plain_fs nov3 [''KEY-A'', ''KEY-B'']
      [''CX-A'', ''CX-B''] imgur_cli)) = 0
   \<and> open_fails locked_fs (output_file (arg_keyword imgur_cli) (arg_country imgur_cli))
   \<and> run_exit (main ascii_lib two_keys_net locked_fs nov3 [''KEY-A'', ''KEY-B''] [''CX-A'',
       ''CX-B''] imgur_cli) = Uncaught OSError
   \<and> exit_code (run_exit (main ascii_lib two_keys_net locked_fs nov3 [''KEY-A'', ''KEY-B'']
       [''CX-A'', ''CX-B''] imgur_cli)) = 1"
  by code_simp

section \<open>The date, and the first matching item of a page\<close>


lemma digit_chars: "list_all (\<lambda>d. is_digit (char_of (48 + d))) [0..<10::nat]"
  by code_simp

lemma digit_char: "(d::nat) < 10 \<Longrightarrow> is_digit (char_of (48 + d))"
proof -
  assume "d < 10"
  then have "d \<in> set [0..<10]" by simp
  then show ?thesis using digit_chars unfolding list_all_iff by blast
qed

lemma str_nat_digits: "list_all is_digit (str_nat n)"
proof (induction n rule: str_nat.induct)
  case (1 n)
  show ?case
  proof (cases "n < 10")
    case True
    then show ?thesis by (simp add: str_nat.simps[of n] digit_char)
  next
    case False
    then show ?thesis using 1 by (simp add: str_nat.simps[of n] digit_char)
  qed
qed

lemma length_str_nat_1: "n < 10 \<Longrightarrow> length (str_nat n) = 1"
  by (simp add: str_nat.simps[of n])

lemma length_str_nat_2: "10 \<le> n \<Longrightarrow> n < 100 \<Longrightarrow> length (str_nat n)
    = 2"
  by (simp add: str_nat.simps[of n] length_str_nat_1)

lemma length_str_nat_3: "100 \<le> n \<Longrightarrow> n < 1000 \<Longrightarrow> length (str_nat
    n) = 3"
  by (simp add: str_nat.simps[of n] length_str_nat_2)

lemma length_str_nat_4: "1000 \<le> n \<Longrightarrow> n < 10000 \<Longrightarrow> length
    (str_nat n) = 4"
  by (simp add: str_nat.simps[of n] length_str_nat_3)

lemma zero_pad_two:
  assumes "n < 100"
  shows "length (zero_pad 2 (str_nat n)) = 2 \<and> list_all is_digit (zero_pad 2 (str_nat n))"
proof (cases "n < 10")
  case True
  have "is_digit (CHR ''0'')" by (simp add: is_digit_def)
  then show ?thesis
    using True str_nat_digits[of n] by (simp add: zero_pad_def length_str_nat_1)
next
  case False
  then show ?thesis
    using assms str_nat_digits[of n] by (simp add: zero_pad_def length_str_nat_2)
qed

lemma zero_pad_four:
  assumes "1000 \<le> n" and "n < 10000"
  shows "length (zero_pad 4 (str_nat n)) = 4 \<and> list_all is_digit (zero_pad 4 (str_nat n))"
  using assms str_nat_digits[of n] by (simp add: zero_pad_def length_str_nat_4)

lemma strftime_shaped:
  assumes "1000 \<le> year d" and "year d < 10000" and "month d < 100" and "day d < 100"
  shows "date_shaped (strftime_Ymd d)"
proof -
  define y where "y = zero_pad 4 (str_nat (year d))"
  define m where "m = zero_pad 2 (str_nat (month d))"
  define dd where "dd = zero_pad 2 (str_nat (day d))"
  have y: "length y = 4" "list_all is_digit y"
    using zero_pad_four[OF assms(1,2)] by (simp_all add: y_def)
  have m: "length m = 2" "list_all is_digit m"
    using zero_pad_two[OF assms(3)] by (simp_all add: m_def)
  have dd: "length dd = 2" "list_all is_digit dd"
    using zero_pad_two[OF assms(4)] by (simp_all add: dd_def)
  have s: "strftime_Ymd d = y @ ''-'' @ m @ ''-'' @ dd"
    by (simp add: strftime_Ymd_def y_def m_def dd_def)
  show ?thesis
    unfolding s date_shaped_def using y m dd by (simp add: nth_append)
qed

lemma items_loop_first_hit:
  "k < length its \<Longrightarrow> domain_found nl t (link (its ! k)) = Inr True \<Longrightarrow>
   \<forall>j<k. domain_found nl t (link (its ! j)) = Inr False \<Longrightarrow>
     items_loop nl t its rs
       = (foldl append_item rs (take (Suc k) its), Return (length rs + Suc k) (link (its ! k)))"
proof (induction its arbitrary: k rs)
  case Nil
  then show ?case by simp
next
  case (Cons it its)
  show ?case
  proof (cases k)
    case 0
    then show ?thesis using Cons.prems by simp
  next
    case (Suc k')
    have first: "domain_found nl t (link it) = Inr False"
      using Cons.prems(3) Suc by auto
    have "k' < length its" "domain_found nl t (link (its ! k')) = Inr True"
      "\<forall>j<k'. domain_found nl t (link (its ! j)) = Inr False"
      using Cons.prems Suc by auto
    from Cons.IH[OF this, of "append_item rs it"] show ?thesis
      using first Suc by (simp add: length_append_item)
  qed
qed

section \<open>The scenario with two credentials\<close>


text \<open>The search of the scenario with two credentials.\<close>

lemma two_credentials_search:
  assumes keys: "k1 \<noteq> k2"
    and quota: "\<forall>n ps. param_key ps = k1 \<longrightarrow> net n ps = Status429"
    and page1: "\<forall>n ps. param_key ps = k2 \<and> param_start ps = 1 \<longrightarrow> net n
        ps = Items its"
    and idx: "k < length its"
    and hit: "domain_found nl (target_domain a) (link (its ! k)) = Inr True"
    and miss: "\<forall>j<k. domain_found nl (target_domain a) (link (its ! j)) = Inr False"
    and budget: "1 \<le> num_results a"
    and creds: "api_keys a = [k1, k2]" "cxs a = [c1, c2]"
  shows "google_search nl net a =
     (Returned (foldl append_item [] (take (Suc k) its)) (Some (Suc k)) (link (its ! k)),
      \<lparr>results = foldl append_item [] (take (Suc k) its), key_cycle = 2,
       calls = [(\<lparr>param_q = query a, param_start = 1, param_num = min 10 (num_results a),
                   param_gl = country a, param_key = k1, param_cx = c1\<rparr>, Status429),
                (\<lparr>param_q = query a, param_start = 1, param_num = min 10 (num_results a),
                   param_gl = country a, param_key = k2, param_cx = c2\<rparr>, Items its)],
       console = [QuotaExceededMsg k1], sleeps = 0\<rparr>)"
proof -
  let ?num = "min 10 (num_results a)"
  let ?ps1 = "\<lparr>param_q = query a, param_start = 1, param_num = ?num,
                   param_gl = country a, param_key = k1, param_cx = c1\<rparr>"
  let ?ps2 = "\<lparr>param_q = query a, param_start = 1, param_num = ?num,
                   param_gl = country a, param_key = k2, param_cx = c2\<rparr>"
  let ?st1 = "\<lparr>results = [], key_cycle = 1, calls = [(?ps1, Status429)],
       console = [QuotaExceededMsg k1], sleeps = 0\<rparr>"
  let ?rs = "foldl append_item [] (take (Suc k) its)"
  let ?st2 = "\<lparr>results = ?rs, key_cycle = 2, calls = [(?ps1, Status429), (?ps2, Items its)],
       console = [QuotaExceededMsg k1], sleeps = 0\<rparr>"
  have n0: "next_key a 0 = Some (k1, c1)" and n1: "next_key a 1 = Some (k2, c2)"
    using creds by (simp_all add: next_key_def)
  have r1: "net 0 ?ps1 = Status429" using quota by simp
  have r2: "net 1 ?ps2 = Items its" using page1 by simp
  have a1: "attempt nl net a 1 ?num init_state = (?st1, Normal False)"
    using n0 r1 by (simp add: attempt_def init_state_def)
  have il: "items_loop nl (target_domain a) its [] = (?rs, Return (Suc k) (link (its ! k)))"
    using items_loop_first_hit[OF idx hit miss, of "[]"] by simp
  have a2: "attempt nl net a 1 ?num ?st1 = (?st2, Return (Suc k) (link (its ! k)))"
    using n1 r2 il by (simp add: attempt_def)
  have "attempts nl net a 1 ?num (Suc (Suc 0)) init_state
      = (?st2, Return (Suc k) (link (its ! k)))"
    using a1 a2 by simp
  then have at: "attempts nl net a 1 ?num (length (api_keys a)) init_state
      = (?st2, Return (Suc k) (link (its ! k)))"
    using creds by simp
  have rg: "range10 1 (num_results a + 1) = 1 # range10 11 (num_results a + 1)"
    using budget by (simp add: range10.simps[of 1])
  have "pages nl net a (range10 1 (num_results a + 1)) init_state
      = (?st2, Return (Suc k) (link (its ! k)))"
    unfolding rg using at by (simp add: init_state_def)
  then show ?thesis by (simp add: google_search_def)
qed


lemma take_four:
  assumes "3 < length xs"
  shows "take 4 xs = [xs ! 0, xs ! 1, xs ! 2, xs ! 3]"
proof -
  obtain a xs1 where 1: "xs = a # xs1" using assms by (cases xs) auto
  obtain b xs2 where 2: "xs1 = b # xs2" using assms 1 by (cases xs1) auto
  obtain c xs3 where 3: "xs2 = c # xs3" using assms 1 2 by (cases xs2) auto
  obtain d xs4 where 4: "xs3 = d # xs4" using assms 1 2 3 by (cases xs3) auto
  show ?thesis by (simp add: 1 2 3 4 numeral_eq_Suc)
qed

text \<open>
  Claim C2, as amended. Two credentials; every request with the first key is answered with
  status 429; the request for page 1 with the second key is answered with a list of items
  of which the one at index 3 is the first that matches the domain; the budget is at least
  1 (20 in the claim) and the output file can be opened and written. Then the script
  prints the quota warning for the first key, position 4 with the link of that item, and
  the name of the file; it sends two requests, the failed one and the successful one, and
  exits with code 0. The file gains four lines, one for each of the items at index 0 to 3
  of the answer, each starting with the date of the day, which has the form YYYY-MM-DD for
  a year of four digits. The items after index 3 of the answer get no line.
\<close>

theorem two_credentials_scenario:
  assumes "k1 \<noteq> k2"
    and "\<forall>n ps. param_key ps = k1 \<longrightarrow> net n ps = Status429"
    and "\<forall>n ps. param_key ps = k2 \<and> param_start ps = 1 \<longrightarrow> net n ps =
        Items its"
    and "3 < length its"
    and "domain_found nl (Some (arg_domain args)) (link (its ! 3)) = Inr True"
    and "\<forall>j<3. domain_found nl (Some (arg_domain args)) (link (its ! j)) = Inr False"
    and "1 \<le> arg_results args"
    and "\<not> open_fails fs (output_file (arg_keyword args) (arg_country args))"
    and "room fs (output_file (arg_keyword args) (arg_country args)) = None"
  shows "run_exit (main nl net fs today [k1, k2] [c1, c2] args) = Exit 0
     \<and> run_console (main nl net fs today [k1, k2] [c1, c2] args)
         = [SearchingMsg (arg_keyword args) (arg_country args), QuotaExceededMsg k1,
            FoundMsg (arg_domain args) 4, FoundLinkMsg (link (its ! 3)),
            SavedMsg (output_file (arg_keyword args) (arg_country args))]
     \<and> map snd (run_calls (main nl net fs today [k1, k2] [c1, c2] args))
         = [Status429, Items its]
     \<and> map (param_key \<circ> fst) (run_calls (main nl net fs today [k1, k2] [c1, c2] args))
         = [k1, k2]
     \<and> map (param_start \<circ> fst) (run_calls (main nl net fs today [k1, k2] [c1, c2] args))
         = [1, 1]
     \<and> file_text (run_files (main nl net fs today [k1, k2] [c1, c2] args))
          (output_file (arg_keyword args) (arg_country args))
         = file_text fs (output_file (arg_keyword args) (arg_country args))
           @ strftime_Ymd today @ ''|'' @ str_link (link (its ! 0)) @ ''|1'' @ [CHR 0x0A]
           @ strftime_Ymd today @ ''|'' @ str_link (link (its ! 1)) @ ''|2'' @ [CHR 0x0A]
           @ strftime_Ymd today @ ''|'' @ str_link (link (its ! 2)) @ ''|3'' @ [CHR 0x0A]
           @ strftime_Ymd today @ ''|'' @ str_link (link (its ! 3)) @ ''|4'' @ [CHR 0x0A]
     \<and> (1000 \<le> year today \<and> year today < 10000 \<and> month today < 100 \<and> day
         today < 100
          \<longrightarrow> date_shaped (strftime_Ymd today))"
proof -
  let ?a = "call_args [k1, k2] [c1, c2] args"
  let ?path = "output_file (arg_keyword args) (arg_country args)"
  let ?rs = "foldl append_item [] (take (Suc 3) its)"
  have t: "target_domain ?a = Some (arg_domain args)" by (simp add: call_args_def)
  have g: "google_search nl net ?a =
     (Returned ?rs (Some (Suc 3)) (link (its ! 3)),
      \<lparr>results = ?rs, key_cycle = 2,
       calls = [(\<lparr>param_q = query ?a, param_start = 1, param_num = min 10 (num_results ?a),
                   param_gl = country ?a, param_key = k1, param_cx = c1\<rparr>, Status429),
                (\<lparr>param_q = query ?a, param_start = 1, param_num = min 10 (num_results ?a),
                   param_gl = country ?a, param_key = k2, param_cx = c2\<rparr>, Items its)],
       console = [QuotaExceededMsg k1], sleeps = 0\<rparr>)"
    by (rule two_credentials_search[OF assms(1,2,3,4)])
       (use assms(5,6,7) in \<open>simp_all add: call_args_def\<close>)
  have rs: "?rs = [\<lparr>title = title (its ! 0), link = link (its ! 0), snippet = snippet (its
      ! 0),
                     position = 1\<rparr>,
                   \<lparr>title = title (its ! 1), link = link (its ! 1), snippet = snippet (its
                       ! 1),
                     position = 2\<rparr>,
                   \<lparr>title = title (its ! 2), link = link (its ! 2), snippet = snippet (its
                       ! 2),
                     position = 3\<rparr>,
                   \<lparr>title = title (its ! 3), link = link (its ! 3), snippet = snippet (its
                       ! 3),
                     position = 4\<rparr>]"
    using take_four[OF assms(4)] by (simp add: append_item_def)
  have digits: "str_nat (Suc 0) = ''1''" "str_nat 2 = ''2''" "str_nat 3 = ''3''"
    "str_nat 4 = ''4''"
    by code_simp+
  have block: "concat (map (log_line (strftime_Ymd today)) ?rs)
      = strftime_Ymd today @ ''|'' @ str_link (link (its ! 0)) @ ''|1'' @ [CHR 0x0A]
           @ strftime_Ymd today @ ''|'' @ str_link (link (its ! 1)) @ ''|2'' @ [CHR 0x0A]
           @ strftime_Ymd today @ ''|'' @ str_link (link (its ! 2)) @ ''|3'' @ [CHR 0x0A]
           @ strftime_Ymd today @ ''|'' @ str_link (link (its ! 3)) @ ''|4'' @ [CHR 0x0A]"
    unfolding rs by (simp add: log_line_def digits)
  have sv: "snd (save_results fs ?path (strftime_Ymd today) ?rs) = None"
    using save_results_unlimited[OF assms(8,9)] by blast
  then have sv': "save_results fs ?path (strftime_Ymd today) ?rs
      = (fst (save_results fs ?path (strftime_Ymd today) ?rs), None)"
    by (simp add: prod_eq_iff)
  have ft: "file_text (fst (save_results fs ?path (strftime_Ymd today) ?rs)) ?path
      = file_text fs ?path @ concat (map (log_line (strftime_Ymd today)) ?rs)"
    using save_results_text[OF sv'] .
  have v: "verdict (arg_domain args) (arg_results args) (Some (Suc 3)) (link (its ! 3))
      = [FoundMsg (arg_domain args) 4, FoundLinkMsg (link (its ! 3))]"
    by (simp add: verdict_def)
  have m: "main nl net fs today [k1, k2] [c1, c2] args =
      \<lparr>run_exit = Exit 0,
       run_console = SearchingMsg (arg_keyword args) (arg_country args) # [QuotaExceededMsg k1]
          @ verdict (arg_domain args) (arg_results args) (Some (Suc 3)) (link (its ! 3))
          @ [SavedMsg ?path],
       run_calls = [(\<lparr>param_q = query ?a, param_start = 1, param_num = min 10 (num_results
           ?a),
                   param_gl = country ?a, param_key = k1, param_cx = c1\<rparr>, Status429),
                (\<lparr>param_q = query ?a, param_start = 1, param_num = min 10 (num_results ?a),
                   param_gl = country ?a, param_key = k2, param_cx = c2\<rparr>, Items its)],
       run_files = fst (save_results fs ?path (strftime_Ymd today) ?rs)\<rparr>"
  proof -
    have len: "length [k1, k2] = length [c1, c2]" by simp
    have gf: "fst (google_search nl net ?a) = Returned ?rs (Some (Suc 3)) (link (its ! 3))"
      using g by simp
    show ?thesis
      using main_returned[OF len gf, of fs today] sv g by (simp add: Let_def)
  qed
  show ?thesis
    unfolding m using v ft block strftime_shaped[of today] by simp
qed


theorem two_credentials_scenario_witness:
  "''KEY-A'' \<noteq> ''KEY-B''
   \<and> arg_keyword imgur_cli = ''free image hosting'' \<and> arg_domain imgur_cli = ''imgur.com''
   \<and> arg_results imgur_cli = 20
   \<and> 3 < length imgur_page
   \<and> domain_found ascii_lib (Some (arg_domain imgur_cli)) (link (imgur_page ! 3)) = Inr True
   \<and> list_all (\<lambda>j. domain_found ascii_lib (Some (arg_domain imgur_cli)) (link
       (imgur_page ! j))
                      = Inr False) [0..<3]
   \<and> \<not> open_fails plain_fs (output_file (arg_keyword imgur_cli) (arg_country imgur_cli))
   \<and> room plain_fs (output_file (arg_keyword imgur_cli) (arg_country imgur_cli)) = None
   \<and> run_exit (main ascii_lib two_keys_net plain_fs nov3 [''KEY-A'', ''KEY-B''] [''CX-A'',
       ''CX-B''] imgur_cli) = Exit 0
   \<and> run_console (main ascii_lib two_keys_net plain_fs nov3 [''KEY-A'', ''KEY-B''] [''CX-A'',
       ''CX-B''] imgur_cli)
       = [SearchingMsg ''free image hosting'' ''us'', QuotaExceededMsg ''KEY-A'',
          FoundMsg ''imgur.com'' 4, FoundLinkMsg (Some ''https://www.imgur.com/upload''),
          SavedMsg ''seo_results_free_image_hosting_us.txt'']
   \<and> map snd (run_calls (main ascii_lib two_keys_net plain_fs nov3 [''KEY-A'', ''KEY-B'']
       [''CX-A'', ''CX-B''] imgur_cli))
       = [Status429, Items imgur_page]
   \<and> file_text (run_files (main ascii_lib two_keys_net plain_fs nov3 [''KEY-A'', ''KEY-B'']
       [''CX-A'', ''CX-B''] imgur_cli))
        ''seo_results_free_image_hosting_us.txt''
       = ''2026-11-03|https://postimages.org/|1'' @ [CHR 0x0A]
         @ ''2026-11-03|https://imgbb.com/upload|2'' @ [CHR 0x0A]
         @ ''2026-11-03|https://www.example.org/imgur.com-review|3'' @ [CHR 0x0A]
         @ ''2026-11-03|https://www.imgur.com/upload|4'' @ [CHR 0x0A]
   \<and> date_shaped (strftime_Ymd nov3)"
proof -
  have k: "''KEY-A'' \<noteq> ''KEY-B''" by simp
  have q: "\<forall>n ps. param_key ps = ''KEY-A'' \<longrightarrow> two_keys_net n ps = Status429"
    by (simp add: two_keys_net_def)
  have p1: "\<forall>n ps. param_key ps = ''KEY-B'' \<and> param_start ps = 1
      \<longrightarrow> two_keys_net n ps = Items imgur_page"
    by (simp add: two_keys_net_def)
  have i: "3 < length imgur_page" by code_simp
  have h: "domain_found ascii_lib (Some (arg_domain imgur_cli)) (link (imgur_page ! 3)) = Inr True"
    by code_simp
  have ms: "list_all (\<lambda>j. domain_found ascii_lib (Some (arg_domain imgur_cli)) (link
      (imgur_page ! j))
                      = Inr False) [0..<3]"
    by code_simp
  have m: "\<forall>j<3. domain_found ascii_lib (Some (arg_domain imgur_cli)) (link (imgur_page !
      j))
      = Inr False"
    using ms unfolding list_all_iff by simp
  have b: "1 \<le> arg_results imgur_cli" by (simp add: imgur_cli_def)
  have o: "\<not> open_fails plain_fs (output_file (arg_keyword imgur_cli) (arg_country imgur_cli))"
    and r: "room plain_fs (output_file (arg_keyword imgur_cli) (arg_country imgur_cli)) = None"
    by (simp_all add: plain_fs_def)
  have c: "arg_keyword imgur_cli = ''free image hosting''" "arg_domain imgur_cli = ''imgur.com''"
    "arg_country imgur_cli = ''us''" "arg_results imgur_cli = 20"
    by (simp_all add: imgur_cli_def)
  have n: "output_file ''free image hosting'' ''us'' = ''seo_results_free_image_hosting_us.txt''"
    by code_simp
  have d: "strftime_Ymd nov3 = ''2026-11-03''" by code_simp
  have y: "1000 \<le> year nov3 \<and> year nov3 < 10000 \<and> month nov3 < 100 \<and> day nov3 <
      100"
    by (simp add: nov3_def)
  have e: "file_text plain_fs ''seo_results_free_image_hosting_us.txt'' = []"
    by (simp add: file_text_def plain_fs_def)
  have l: "link (imgur_page ! 0) = Some ''https://postimages.org/''"
    "link (imgur_page ! 1) = Some ''https://imgbb.com/upload''"
    "link (imgur_page ! 2) = Some ''https://www.example.org/imgur.com-review''"
    "link (imgur_page ! 3) = Some ''https://www.imgur.com/upload''"
    by code_simp+
  note t = two_credentials_scenario[OF k q p1 i h m b o r, of nov3 "''CX-A''" "''CX-B''"]
  show ?thesis
    using t k i h ms o r y unfolding c n d l by (simp add: e str_link_def)
qed

text \<open>
  The claim as it was written fails when the answer has more than four items: here it has
  five, the item at index 3 is the first on the target domain, and the file gains four
  lines, not five.
\<close>

theorem one_line_per_item_counterexample:
  "map snd (run_calls (main ascii_lib two_keys_net plain_fs nov3 [''KEY-A'', ''KEY-B''] [''CX-A'',
      ''CX-B''] imgur_cli))
     = [Status429, Items imgur_page]
   \<and> length imgur_page = 5
   \<and> domain_found ascii_lib (Some ''imgur.com'') (link (imgur_page ! 3)) = Inr True
   \<and> file_text plain_fs ''seo_results_free_image_hosting_us.txt'' = []
   \<and> file_text (run_files (main ascii_lib two_keys_net plain_fs nov3 [''KEY-A'', ''KEY-B'']
       [''CX-A'', ''CX-B''] imgur_cli))
        ''seo_results_free_image_hosting_us.txt''
       = ''2026-11-03|https://postimages.org/|1'' @ [CHR 0x0A]
         @ ''2026-11-03|https://imgbb.com/upload|2'' @ [CHR 0x0A]
         @ ''2026-11-03|https://www.example.org/imgur.com-review|3'' @ [CHR 0x0A]
         @ ''2026-11-03|https://www.imgur.com/upload|4'' @ [CHR 0x0A]
   \<and> length (filter (\<lambda>c. c = CHR 0x0A) (file_text (run_files (main ascii_lib
       two_keys_net plain_fs nov3 [''KEY-A'', ''KEY-B''] [''CX-A'', ''CX-B''] imgur_cli))
        ''seo_results_free_image_hosting_us.txt'')) = 4"
  by code_simp

section \<open>Counting the requests\<close>


lemma range10_bounds: "s \<in> set (range10 i stop) \<Longrightarrow> i \<le> s \<and> s < stop"
proof (induction i stop rule: range10.induct)
  case (1 i stop)
  show ?case
  proof (cases "i < stop")
    case True
    then have "s = i \<or> s \<in> set (range10 (i + 10) stop)"
      using "1.prems" by (simp add: range10.simps[of i stop])
    then show ?thesis using "1.IH"[OF True] True by auto
  next
    case False
    then show ?thesis using "1.prems" by (simp add: range10.simps[of i stop])
  qed
qed

lemma distinct_range10: "distinct (range10 i stop)"
proof (induction i stop rule: range10.induct)
  case (1 i stop)
  show ?case
  proof (cases "i < stop")
    case True
    have "i \<notin> set (range10 (i + 10) stop)" using range10_bounds[of i "i + 10" stop] by auto
    then show ?thesis using "1.IH"[OF True] True by (simp add: range10.simps[of i stop])
  next
    case False
    then show ?thesis by (simp add: range10.simps[of i stop])
  qed
qed


text \<open>The requests of the loop over the pages, counted by start offset.\<close>

lemma pages_calls:
  "pages nl net a ss st = (st', f) \<Longrightarrow>
     \<exists>new. calls st' = calls st @ new
       \<and> (\<forall>c\<in>set new. param_start (fst c) \<in> set ss)
       \<and> (distinct ss \<longrightarrow>
            (\<forall>s. length (filter (\<lambda>c. param_start (fst c) = s) new) \<le> length
                (api_keys a)))"
proof (induction ss arbitrary: st)
  case Nil
  then show ?case by simp
next
  case (Cons s ss)
  define num where "num = min 10 (num_results a - int (length (results st)))"
  obtain st1 f1 where a1: "attempts nl net a s num (length (api_keys a)) st = (st1, f1)"
    by (cases "attempts nl net a s num (length (api_keys a)) st")
  obtain new1 where new1: "calls st1 = calls st @ new1" "length new1 \<le> length (api_keys a)"
    "\<forall>c\<in>set new1. param_start (fst c) = s \<and> param_num (fst c) = num"
    using attempts_calls[OF a1] by blast
  have f1s: "filter (\<lambda>c. param_start (fst c) = s) new1 = new1"
    using new1(3) by (simp add: filter_id_conv)
  have f1o: "\<And>s'. s' \<noteq> s \<Longrightarrow> filter (\<lambda>c. param_start (fst c) =
      s') new1 = []"
    using new1(3) by (auto simp: filter_empty_conv)
  show ?case
  proof (cases "f1 = Normal True \<and> \<not> num_results a \<le> int (length (results st1))")
    case True
    then have "pages nl net a ss (st1\<lparr>sleeps := sleeps st1 + 1\<rparr>) = (st', f)"
      using Cons.prems a1 by (simp add: num_def)
    from Cons.IH[OF this] obtain new where new: "calls st' = calls st1 @ new"
      "\<forall>c\<in>set new. param_start (fst c) \<in> set ss"
      "distinct ss \<longrightarrow>
            (\<forall>s. length (filter (\<lambda>c. param_start (fst c) = s) new) \<le> length
                (api_keys a))"
      by auto
    have c: "calls st' = calls st @ (new1 @ new)" using new1 new by simp
    have m: "\<forall>c\<in>set (new1 @ new). param_start (fst c) \<in> set (s # ss)"
      using new1(3) new(2) by auto
    have d: "distinct (s # ss) \<longrightarrow>
            (\<forall>s'. length (filter (\<lambda>c. param_start (fst c) = s') (new1 @ new))
                  \<le> length (api_keys a))"
    proof (intro impI allI)
      fix s' assume dist: "distinct (s # ss)"
      then have "s \<notin> set ss" and dss: "distinct ss" by simp_all
      then have f2s: "filter (\<lambda>c. param_start (fst c) = s) new = []"
        using new(2) by (auto simp: filter_empty_conv)
      show "length (filter (\<lambda>c. param_start (fst c) = s') (new1 @ new)) \<le> length
          (api_keys a)"
      proof (cases "s' = s")
        case True
        then show ?thesis using f1s f2s new1(2) by simp
      next
        case False
        then show ?thesis using f1o[OF False] new(3) dss by simp
      qed
    qed
    show ?thesis using c m d by blast
  next
    case False
    then have "calls st' = calls st1" using Cons.prems a1
      by (auto simp: num_def split: flow.splits if_splits)
    then have c: "calls st' = calls st @ new1" using new1 by simp
    have m: "\<forall>c\<in>set new1. param_start (fst c) \<in> set (s # ss)" using new1(3) by simp
    have d: "\<forall>s'. length (filter (\<lambda>c. param_start (fst c) = s') new1) \<le> length
        (api_keys a)"
    proof
      fix s'
      show "length (filter (\<lambda>c. param_start (fst c) = s') new1) \<le> length (api_keys a)"
        using f1s f1o[of s'] new1(2) by (cases "s' = s") simp_all
    qed
    show ?thesis using c m d by blast
  qed
qed

text \<open>When every answer in the window of a page is a failure, the page is exhausted.\<close>

lemma attempts_all_fail:
  "zip (api_keys a) (cxs a) \<noteq> [] \<Longrightarrow>
   \<forall>k ps. length (calls st) \<le> k \<and> k < length (calls st) + n \<longrightarrow>
       failed (net k ps) \<Longrightarrow>
     snd (attempts nl net a start num n st) = Normal False"
proof (induction n arbitrary: st)
  case 0
  then show ?case by simp
next
  case (Suc n)
  have now: "\<And>ps. failed (net (length (calls st)) ps)" using Suc.prems(2) by simp
  show ?case
  proof (cases rule: attempt_cases[of a st nl net start num])
    case stop
    then show ?thesis using Suc.prems(1) by (simp add: next_key_def)
  next
    case (fail api_key cx ps resp msg)
    let ?st1 = "st\<lparr>key_cycle := key_cycle st + 1, calls := calls st @ [(ps, resp)],
             console := console st @ [msg]\<rparr>"
    have "\<forall>k ps. length (calls ?st1) \<le> k \<and> k < length (calls ?st1) + n
        \<longrightarrow> failed (net k ps)"
      using Suc.prems(2) by simp
    from Suc.IH[OF Suc.prems(1) this] show ?thesis using fail(5) by simp
  next
    case (items api_key cx ps its rs f)
    then show ?thesis using now[of ps] by (simp add: failed_def)
  qed
qed

section \<open>Credentials exhausted on a page\<close>


lemma zip_not_empty:
  "length xs = length ys \<Longrightarrow> xs \<noteq> [] \<Longrightarrow> zip xs ys \<noteq> []"
  by (cases xs; cases ys) simp_all

lemma pages_exhausted:
  assumes len: "length (api_keys a) = length (cxs a)"
    and fails: "\<forall>k ps. length (calls st) \<le> k \<and> k < length (calls st) + length
        (api_keys a)
                  \<longrightarrow> failed (net k ps)"
  shows "snd (pages nl net a (start # rest) st) = Normal ()
     \<and> results (fst (pages nl net a (start # rest) st)) = results st
     \<and> sleeps (fst (pages nl net a (start # rest) st)) = sleeps st
     \<and> length (calls (fst (pages nl net a (start # rest) st)))
         = length (calls st) + length (api_keys a)
     \<and> take (length (calls st)) (calls (fst (pages nl net a (start # rest) st))) = calls st
     \<and> (\<forall>c\<in>set (drop (length (calls st)) (calls (fst (pages nl net a (start #
         rest) st)))).
           param_start (fst c) = start \<and> failed (snd c))
     \<and> last (console (fst (pages nl net a (start # rest) st))) = AllKeysFailedMsg"
proof -
  define num where "num = min 10 (num_results a - int (length (results st)))"
  define n where "n = length (api_keys a)"
  obtain st1 f1 where a1: "attempts nl net a start num n st = (st1, f1)"
    by (cases "attempts nl net a start num n st")
  have f1: "f1 = Normal False"
  proof (cases "api_keys a = []")
    case True
    then show ?thesis using a1 by (simp add: n_def)
  next
    case False
    then have "zip (api_keys a) (cxs a) \<noteq> []" using len by (rule zip_not_empty[rotated])
    from attempts_all_fail[OF this, of st n net nl start num] show ?thesis
      using fails a1 by (simp add: n_def)
  qed
  from attempts_exhausted[OF a1[unfolded f1]] obtain new where
    ex: "results st1 = results st" "sleeps st1 = sleeps st" "calls st1 = calls st @ new"
      "length new = n" "\<forall>c\<in>set new. failed (snd c)"
    by blast
  from attempts_calls[OF a1] obtain new' where
    cs: "calls st1 = calls st @ new'" "\<forall>c\<in>set new'. param_start (fst c) = start \<and>
        param_num (fst c) = num"
    by blast
  have "new' = new" using ex(3) cs(1) by simp
  then have st: "\<forall>c\<in>set new. param_start (fst c) = start \<and> failed (snd c)"
    using ex(5) cs(2) by simp
  have p: "pages nl net a (start # rest) st
      = (st1\<lparr>console := console st1 @ [AllKeysFailedMsg]\<rparr>, Normal ())"
    using a1 f1 by (simp add: num_def n_def)
  show ?thesis
    unfolding p using ex st by (simp add: n_def)
qed

text \<open>
  Claim C4. The lists of keys and of search-engine ids have the same length, as the script
  checks. No start offset gets more requests than there are credentials. When the search
  is at a page and the answers to the next requests, as many as there are credentials, are
  all failures (status 429, an exception, or no items), the remaining pages are dropped:
  the loop ends normally, so the search returns the list accumulated before, unchanged and
  without a position; exactly these requests were sent, all for that page, and the message
  that all keys failed is the last one printed. When this happens on page 1, the search
  returns the empty list and no position, whatever the budget.
\<close>

theorem credentials_exhausted:
  assumes "length (api_keys a) = length (cxs a)"
  shows "(\<forall>s. length (filter (\<lambda>c. param_start (fst c) = s) (calls (snd
      (google_search nl net a))))
             \<le> length (zip (api_keys a) (cxs a)))
     \<and> ((\<forall>k ps. length (calls st) \<le> k \<and> k < length (calls st) + length
         (api_keys a)
                  \<longrightarrow> failed (net k ps))
          \<longrightarrow> snd (pages nl net a (start # rest) st) = Normal ()
            \<and> results (fst (pages nl net a (start # rest) st)) = results st
            \<and> sleeps (fst (pages nl net a (start # rest) st)) = sleeps st
            \<and> length (calls (fst (pages nl net a (start # rest) st)))
                = length (calls st) + length (api_keys a)
            \<and> take (length (calls st)) (calls (fst (pages nl net a (start # rest) st)))
                = calls st
            \<and> (\<forall>c\<in>set (drop (length (calls st))
                          (calls (fst (pages nl net a (start # rest) st)))).
                  param_start (fst c) = start \<and> failed (snd c))
            \<and> last (console (fst (pages nl net a (start # rest) st))) = AllKeysFailedMsg)
     \<and> ((\<forall>k ps. k < length (api_keys a) \<longrightarrow> failed (net k ps))
          \<longrightarrow> fst (google_search nl net a) = Returned [] None None
            \<and> length (calls (snd (google_search nl net a)))
                = (if 1 \<le> num_results a then length (api_keys a) else 0))"
proof (intro conjI)
  show "\<forall>s. length (filter (\<lambda>c. param_start (fst c) = s) (calls (snd
      (google_search nl net a))))
             \<le> length (zip (api_keys a) (cxs a))"
  proof
    fix s
    obtain st' f where pg: "pages nl net a (range10 1 (num_results a + 1)) init_state = (st', f)"
      by (cases "pages nl net a (range10 1 (num_results a + 1)) init_state")
    have st': "snd (google_search nl net a) = st'"
      using pg by (simp add: google_search_def split: flow.splits)
    from pages_calls[OF pg] obtain new where
      "calls st' = calls init_state @ new"
      "distinct (range10 1 (num_results a + 1)) \<longrightarrow>
         (\<forall>s. length (filter (\<lambda>c. param_start (fst c) = s) new) \<le> length
             (api_keys a))"
      by blast
    then have "length (filter (\<lambda>c. param_start (fst c) = s) (calls st')) \<le> length
        (api_keys a)"
      using distinct_range10 by (simp add: init_state_def)
    then show "length (filter (\<lambda>c. param_start (fst c) = s) (calls (snd (google_search nl
        net a))))
             \<le> length (zip (api_keys a) (cxs a))"
      using st' assms by simp
  qed
next
  show "(\<forall>k ps. length (calls st) \<le> k \<and> k < length (calls st) + length (api_keys a)
                  \<longrightarrow> failed (net k ps))
          \<longrightarrow> snd (pages nl net a (start # rest) st) = Normal ()
            \<and> results (fst (pages nl net a (start # rest) st)) = results st
            \<and> sleeps (fst (pages nl net a (start # rest) st)) = sleeps st
            \<and> length (calls (fst (pages nl net a (start # rest) st)))
                = length (calls st) + length (api_keys a)
            \<and> take (length (calls st)) (calls (fst (pages nl net a (start # rest) st)))
                = calls st
            \<and> (\<forall>c\<in>set (drop (length (calls st))
                          (calls (fst (pages nl net a (start # rest) st)))).
                  param_start (fst c) = start \<and> failed (snd c))
            \<and> last (console (fst (pages nl net a (start # rest) st))) = AllKeysFailedMsg"
    using pages_exhausted[OF assms] by blast
next
  show "(\<forall>k ps. k < length (api_keys a) \<longrightarrow> failed (net k ps))
          \<longrightarrow> fst (google_search nl net a) = Returned [] None None
            \<and> length (calls (snd (google_search nl net a)))
                = (if 1 \<le> num_results a then length (api_keys a) else 0)"
  proof
    assume all: "\<forall>k ps. k < length (api_keys a) \<longrightarrow> failed (net k ps)"
    show "fst (google_search nl net a) = Returned [] None None
            \<and> length (calls (snd (google_search nl net a)))
                = (if 1 \<le> num_results a then length (api_keys a) else 0)"
    proof (cases "1 \<le> num_results a")
      case True
      then have rg: "range10 1 (num_results a + 1) = 1 # range10 11 (num_results a + 1)"
        by (simp add: range10.simps[of 1])
      have "\<forall>k ps. length (calls init_state) \<le> k
          \<and> k < length (calls init_state) + length (api_keys a) \<longrightarrow> failed (net
              k ps)"
        using all by (simp add: init_state_def)
      from pages_exhausted[OF assms this, of nl 1 "range10 11 (num_results a + 1)"]
      have p: "snd (pages nl net a (range10 1 (num_results a + 1)) init_state) = Normal ()"
        "results (fst (pages nl net a (range10 1 (num_results a + 1)) init_state)) = []"
        "length (calls (fst (pages nl net a (range10 1 (num_results a + 1)) init_state)))
           = length (api_keys a)"
        unfolding rg by (simp_all add: init_state_def)
      show ?thesis
        using p True
        by (cases "pages nl net a (range10 1 (num_results a + 1)) init_state")
           (simp add: google_search_def)
    next
      case False
      then have "range10 1 (num_results a + 1) = []" by (simp add: range10.simps[of 1])
      then show ?thesis using False by (simp add: google_search_def init_state_def)
    qed
  qed
qed


theorem credentials_exhausted_witness:
  "length (api_keys nowhere_args) = length (cxs nowhere_args)
   \<and> length (zip (api_keys nowhere_args) (cxs nowhere_args)) = 2
   \<and> length (filter (\<lambda>c. param_start (fst c) = 11)
        (calls (snd (google_search ascii_lib first_call_net nowhere_args)))) = 2
   \<and> length (calls (fst (attempts ascii_lib first_call_net nowhere_args 1 10 2 init_state)))
       = 1
   \<and> length (results (fst (attempts ascii_lib first_call_net nowhere_args 1 10 2
       init_state))) = 5
   \<and> snd (pages ascii_lib first_call_net nowhere_args [11] (fst (attempts ascii_lib
       first_call_net nowhere_args 1 10 2 init_state))) = Normal ()
   \<and> results (fst (pages ascii_lib first_call_net nowhere_args [11] (fst (attempts ascii_lib
       first_call_net nowhere_args 1 10 2 init_state))))
       = results (fst (attempts ascii_lib first_call_net nowhere_args 1 10 2 init_state))
   \<and> length (calls (fst (pages ascii_lib first_call_net nowhere_args [11] (fst (attempts
       ascii_lib first_call_net nowhere_args 1 10 2 init_state))))) = 3
   \<and> map snd (calls (fst (pages ascii_lib first_call_net nowhere_args [11] (fst (attempts
       ascii_lib first_call_net nowhere_args 1 10 2 init_state)))))
       = [Items imgur_page, RequestError, RequestError]
   \<and> fst (google_search ascii_lib first_call_net nowhere_args)
       = Returned (results (fst (attempts ascii_lib first_call_net nowhere_args 1 10 2
           init_state))) None None
   \<and> length (api_keys imgur_args) = length (cxs imgur_args)
   \<and> fst (google_search ascii_lib dead_net imgur_args) = Returned [] None None
   \<and> length (calls (snd (google_search ascii_lib dead_net imgur_args))) = 2"
proof -
  have l1: "length (api_keys nowhere_args) = length (cxs nowhere_args)" by code_simp
  have l2: "length (api_keys imgur_args) = length (cxs imgur_args)" by code_simp
  have z: "length (zip (api_keys nowhere_args) (cxs nowhere_args)) = 2" by code_simp
  have n: "length (api_keys nowhere_args) = 2" "length (api_keys imgur_args) = 2"
    "num_results imgur_args = 20"
    by code_simp+
  have f: "length (filter (\<lambda>c. param_start (fst c) = 11)
        (calls (snd (google_search ascii_lib first_call_net nowhere_args)))) = 2"
    by code_simp
  have c1: "length (calls (fst (attempts ascii_lib first_call_net nowhere_args 1 10 2
      init_state))) = 1"
    by code_simp
  have r1: "length (results (fst (attempts ascii_lib first_call_net nowhere_args 1 10 2
      init_state))) = 5"
    by code_simp
  have m: "map snd (calls (fst (pages ascii_lib first_call_net nowhere_args [11] (fst (attempts
      ascii_lib first_call_net nowhere_args 1 10 2 init_state)))))
       = [Items imgur_page, RequestError, RequestError]"
    by code_simp
  have g: "fst (google_search ascii_lib first_call_net nowhere_args)
       = Returned (results (fst (attempts ascii_lib first_call_net nowhere_args 1 10 2
           init_state))) None None"
    by code_simp
  have w: "\<forall>k ps. length (calls (fst (attempts ascii_lib first_call_net nowhere_args 1 10
      2 init_state))) \<le> k
      \<and> k < length (calls (fst (attempts ascii_lib first_call_net nowhere_args 1 10 2
          init_state))) + length (api_keys nowhere_args)
      \<longrightarrow> failed (first_call_net k ps)"
    unfolding c1 by (simp add: first_call_net_def failed_def)
  have d: "\<forall>k ps. k < length (api_keys imgur_args) \<longrightarrow> failed (dead_net k ps)"
    by (simp add: dead_net_def failed_def)
  have p: "snd (pages ascii_lib first_call_net nowhere_args [11] (fst (attempts ascii_lib
      first_call_net nowhere_args 1 10 2 init_state))) = Normal ()"
    "results (fst (pages ascii_lib first_call_net nowhere_args [11] (fst (attempts ascii_lib
        first_call_net nowhere_args 1 10 2 init_state))))
       = results (fst (attempts ascii_lib first_call_net nowhere_args 1 10 2 init_state))"
    "length (calls (fst (pages ascii_lib first_call_net nowhere_args [11] (fst (attempts ascii_lib
        first_call_net nowhere_args 1 10 2 init_state))))) = 3"
    using credentials_exhausted[OF l1, of ascii_lib first_call_net
        "fst (attempts ascii_lib first_call_net nowhere_args 1 10 2 init_state)" 11 "[]"] w c1 n
    by simp_all
  have e: "fst (google_search ascii_lib dead_net imgur_args) = Returned [] None None"
    "length (calls (snd (google_search ascii_lib dead_net imgur_args))) = 2"
    using credentials_exhausted[OF l2, of ascii_lib dead_net] d n by simp_all
  show ?thesis
    using l1 l2 z f c1 r1 m g p e by simp
qed

section \<open>Page sizes and start offsets\<close>











section \<open>Pages served by the first credential\<close>








section \<open>Pagination and the budget\<close>





end
